theory Spec2Isabelle
  imports Main
begin

section \<open>Python values used by the toolkit\<close>

text \<open>
  Python integers are unbounded and are modelled by \<open>int\<close>; positions in a list and page
  indices produced by \<open>enumerate\<close> are never negative and are modelled by \<open>nat\<close>.
  An exception is a value; \<open>str_of\<close> is Python's \<open>str(e)\<close>. The type stands for the
  exceptions derived from \<open>Exception\<close>, which are the ones the handlers of the program
  catch; the constructor tells which handler takes it.
\<close>

datatype py_exception = ValueError string | IndexError string | OSError string

fun str_of :: "py_exception \<Rightarrow> string" where
  "str_of (ValueError m) = m"
| "str_of (IndexError m) = m"
| "str_of (OSError m) = m"

text \<open>\<open>list.insert(i, x)\<close>: a negative index counts from the end, and an index outside
  the list is clipped to its ends.\<close>

definition py_insert :: "int \<Rightarrow> 'a \<Rightarrow> 'a list \<Rightarrow> 'a list" where
  "py_insert i x xs =
     (let n = int (length xs);
          j = (if i < 0 then max 0 (n + i) else min i n)
      in take (nat j) xs @ x # drop (nat j) xs)"

text \<open>\<open>list.index(x)\<close>: the first position holding \<open>x\<close>, or ValueError.\<close>

fun py_index :: "'a \<Rightarrow> 'a list \<Rightarrow> py_exception + nat" where
  "py_index x [] = Inl (ValueError ''x not in list'')"
| "py_index x (y # ys) =
     (if x = y then Inr 0
      else (case py_index x ys of Inl e \<Rightarrow> Inl e | Inr i \<Rightarrow> Inr (Suc i)))"

text \<open>\<open>list.pop(i)\<close> for a position \<open>i \<ge> 0\<close>: IndexError outside the list.\<close>

definition py_pop :: "nat \<Rightarrow> 'a list \<Rightarrow> py_exception + 'a list" where
  "py_pop i xs =
     (if i < length xs then Inr (take i xs @ drop (Suc i) xs)
      else Inl (IndexError ''pop index out of range''))"

section \<open>The progress channel\<close>

text \<open>
  The tuples put on \<open>progress_queue\<close>: \<open>("progress", pct)\<close>, \<open>("status", msg)\<close>,
  \<open>("done", msg)\<close> and \<open>("error", msg)\<close>.
\<close>

datatype event = Progress int | Status string | Done string | Error string

fun is_Done :: "event \<Rightarrow> bool" where
  "is_Done (Done m) = True"
| "is_Done e = False"

fun is_Error :: "event \<Rightarrow> bool" where
  "is_Error (Error m) = True"
| "is_Error e = False"

section \<open>The page organizer\<close>

text \<open>
  A \<open>PageCard\<close> is a mutable widget object; \<open>page_widgets\<close> holds references to cards.
  Cards live in a store \<open>cards\<close> indexed by reference, so that rotating a card is seen
  through every reference to it. \<open>winfo_width\<close> and \<open>winfo_height\<close> are the widget's
  size as Tk reports it. The thumbnail image is derived data and is left out.
\<close>

type_synonym ref = nat

record PageCard =
  orig_index :: nat
  source_path :: string
  rotation :: int
  winfo_width :: int
  winfo_height :: int

text \<open>\<open>PageCard.__init__\<close>: rotation starts at 0; an unrealised Tk widget reports size 1.\<close>

definition PageCard_init :: "nat \<Rightarrow> string \<Rightarrow> PageCard" where
  "PageCard_init idx path =
     \<lparr>orig_index = idx, source_path = path, rotation = 0, winfo_width = 1, winfo_height = 1\<rparr>"

text \<open>\<open>PageCard.rotate_cw\<close>: \<open>self.rotation += 90\<close> (the thumbnail refresh is left out).\<close>

definition rotate_cw :: "PageCard \<Rightarrow> PageCard" where
  "rotate_cw c = c\<lparr>rotation := rotation c + 90\<rparr>"

text \<open>
  \<open>MainApp\<close>: the progress queue, the status line and the progress bar variable. Two
  effects are recorded as well: how many worker threads have been started, and the message
  boxes shown so far.
\<close>

datatype dialog = showwarning string string | showerror string string | showinfo string string

record MainApp =
  progress_queue :: "event list"
  status :: string
  progress_var :: int
  threads_started :: nat
  dialogs :: "dialog list"

definition MainApp_init :: MainApp where
  "MainApp_init =
     \<lparr>progress_queue = [], status = ''Ready'', progress_var = 0, threads_started = 0,
      dialogs = []\<rparr>"

text \<open>
  \<open>OrganizePage\<close>: the working list, the selection, the dragged card (\<open>None\<close> also when
  the attribute does not exist yet), the column count, the card store with its
  allocation counter, the Tk grid placement of each card, and the application
  (\<open>self.app\<close>). The info label is left out.
\<close>

record OrganizePage =
  page_widgets :: "ref list"
  selected_card :: "ref option"
  drag_item :: "ref option"
  grid_cols :: int
  cards :: "ref \<Rightarrow> PageCard"
  next_ref :: ref
  grid :: "ref \<rightharpoonup> int \<times> int"
  app :: MainApp

text \<open>\<open>OrganizePage.__init__\<close>.\<close>

definition OrganizePage_init :: OrganizePage where
  "OrganizePage_init =
     \<lparr>page_widgets = [], selected_card = None, drag_item = None, grid_cols = 5,
      cards = (\<lambda>r. PageCard_init 0 []), next_ref = 0, grid = Map.empty,
      app = MainApp_init\<rparr>"

text \<open>\<open>self.app.progress_queue.put(e)\<close>.\<close>

definition put :: "event \<Rightarrow> OrganizePage \<Rightarrow> OrganizePage" where
  "put e s = s\<lparr>app := (app s)\<lparr>progress_queue := progress_queue (app s) @ [e]\<rparr>\<rparr>"

subsection \<open>Grid layout\<close>

text \<open>
  The loop of \<open>_reflow_grid\<close>: one \<open>card.grid(row=row, column=col)\<close> call per card, in
  list order, with the running \<open>row\<close> and \<open>col\<close> counters. The result lists the calls.
\<close>

fun reflow_loop :: "int \<Rightarrow> ref list \<Rightarrow> int \<Rightarrow> int \<Rightarrow> (ref \<times> int \<times> int) list" where
  "reflow_loop C [] row col = []"
| "reflow_loop C (w # rest) row col =
     (w, row, col) #
       (if col + 1 \<ge> C then reflow_loop C rest (row + 1) 0
        else reflow_loop C rest row (col + 1))"

text \<open>\<open>_reflow_grid\<close>: every placement is forgotten, then the calls are applied in order
  (a later call for the same widget replaces an earlier one).\<close>

definition grid_call :: "ref \<times> int \<times> int \<Rightarrow> (ref \<rightharpoonup> int \<times> int) \<Rightarrow> (ref \<rightharpoonup> int \<times> int)" where
  "grid_call c g = (case c of (w, row, col) \<Rightarrow> g(w \<mapsto> (row, col)))"

definition reflow_grid :: "OrganizePage \<Rightarrow> OrganizePage" where
  "reflow_grid s =
     s\<lparr>grid := fold grid_call (reflow_loop (grid_cols s) (page_widgets s) 0 0) Map.empty\<rparr>"

subsection \<open>Adding and removing cards\<close>

text \<open>One dictionary of \<open>page_data\<close>: the keys \<open>"index"\<close> and \<open>"path"\<close> (the image is left
  out; the key \<open>"rotation"\<close> is always 0 and never read).\<close>

record page_data =
  index :: nat
  path :: string

text \<open>The first loop of \<open>_append_to_grid\<close>: one new \<open>PageCard\<close> object per dictionary.\<close>

fun new_cards :: "page_data list \<Rightarrow> OrganizePage \<Rightarrow> ref list \<times> OrganizePage" where
  "new_cards [] s = ([], s)"
| "new_cards (d # ds) s =
     (let r = next_ref s;
          s' = s\<lparr>cards := (cards s)(r := PageCard_init (index d) (path d)), next_ref := Suc r\<rparr>;
          (rs, s'') = new_cards ds s'
      in (r # rs, s''))"

text \<open>The second loop: \<open>self.page_widgets.insert(insert_idx + i, card)\<close> for the \<open>i\<close>-th
  new card.\<close>

fun insert_loop :: "int \<Rightarrow> nat \<Rightarrow> ref list \<Rightarrow> ref list \<Rightarrow> ref list" where
  "insert_loop insert_idx i [] ws = ws"
| "insert_loop insert_idx i (c # cs) ws =
     insert_loop insert_idx (Suc i) cs (py_insert (insert_idx + int i) c ws)"

definition append_to_grid :: "page_data list \<Rightarrow> int option \<Rightarrow> OrganizePage \<Rightarrow> OrganizePage" where
  "append_to_grid new_page_data insert_idx s =
     (let s1 = put (Status ''Populating grid...'') s;
          (cs, s2) = new_cards new_page_data s1;
          s3 = (case insert_idx of
                  Some k \<Rightarrow> s2\<lparr>page_widgets := insert_loop k 0 cs (page_widgets s2)\<rparr>
                | None \<Rightarrow> s2\<lparr>page_widgets := page_widgets s2 @ cs\<rparr>);
          s4 = reflow_grid s3
      in put (Progress 0) (put (Status ''Loaded.'') s4))"

text \<open>\<open>remove_page_card\<close>: the widget is destroyed, the reference leaves the list if it is
  there, and the grid is laid out again.\<close>

definition destroy :: "ref \<Rightarrow> OrganizePage \<Rightarrow> OrganizePage" where
  "destroy c s = s\<lparr>grid := (grid s)(c := None)\<rparr>"

definition remove_page_card :: "ref \<Rightarrow> OrganizePage \<Rightarrow> OrganizePage" where
  "remove_page_card c s =
     (let s1 = (if selected_card s = Some c then s\<lparr>selected_card := None\<rparr> else s);
          s2 = destroy c s1;
          s3 = (if c \<in> set (page_widgets s2)
                then s2\<lparr>page_widgets := remove1 c (page_widgets s2)\<rparr> else s2)
      in reflow_grid s3)"

text \<open>\<open>rotate_cw\<close> on the card a reference points to.\<close>

definition rotate_card :: "ref \<Rightarrow> OrganizePage \<Rightarrow> OrganizePage" where
  "rotate_card c s = s\<lparr>cards := (cards s)(c := rotate_cw (cards s c))\<rparr>"

subsection \<open>Drag and drop\<close>

definition select_card :: "ref \<Rightarrow> OrganizePage \<Rightarrow> OrganizePage" where
  "select_card c s = s\<lparr>selected_card := Some c\<rparr>"

definition on_drag_start :: "ref \<Rightarrow> OrganizePage \<Rightarrow> OrganizePage" where
  "on_drag_start c s = (select_card c s)\<lparr>drag_item := Some c\<rparr>"

definition on_drag_stop :: "OrganizePage \<Rightarrow> OrganizePage" where
  "on_drag_stop s = s\<lparr>drag_item := None\<rparr>"

text \<open>
  The target computation of \<open>on_drag_motion\<close>, from the pointer position \<open>(x, y)\<close>
  relative to the grid frame and the first card \<open>first\<close> of a list of \<open>n\<close> cards.
  Python's \<open>//\<close> rounds towards minus infinity, as \<open>div\<close> on \<open>int\<close> does.
\<close>

definition cell_size :: "PageCard \<Rightarrow> int \<times> int" where
  "cell_size first =
     (let w_width = winfo_width first + 10;
          w_height = winfo_height first + 10
      in (if w_width < 50 then 170 else w_width, if w_height < 50 then 250 else w_height))"

definition drag_target_index :: "int \<Rightarrow> PageCard \<Rightarrow> int \<Rightarrow> int \<Rightarrow> int \<Rightarrow> int" where
  "drag_target_index C first n x y =
     (let (w_width, w_height) = cell_size first;
          target_col = max 0 (min (C - 1) (x div w_width));
          target_row = max 0 (y div w_height);
          target_idx = target_row * C + target_col
      in if target_idx \<ge> n then n - 1 else target_idx)"

text \<open>The reordering step of \<open>on_drag_motion\<close>: \<open>index\<close>, then \<open>pop\<close> and \<open>insert\<close> when
  the target differs from the current position. \<open>None\<close> in the result stands for "list
  left untouched".\<close>

definition drag_reorder :: "ref \<Rightarrow> int \<Rightarrow> ref list \<Rightarrow> py_exception + ref list option" where
  "drag_reorder d target_idx ws =
     (case py_index d ws of
        Inl e \<Rightarrow> Inl e
      | Inr current_idx \<Rightarrow>
          if target_idx \<noteq> int current_idx
          then (case py_pop current_idx ws of
                  Inl e \<Rightarrow> Inl e
                | Inr ws' \<Rightarrow> Inr (Some (py_insert target_idx d ws')))
          else Inr None)"

definition on_drag_motion :: "int \<Rightarrow> int \<Rightarrow> OrganizePage \<Rightarrow> py_exception + OrganizePage" where
  "on_drag_motion x y s =
     (case drag_item s of
        None \<Rightarrow> Inr s
      | Some d \<Rightarrow>
          (case page_widgets s of
             [] \<Rightarrow> Inr s
           | first # rest \<Rightarrow>
               (case drag_reorder d
                       (drag_target_index (grid_cols s) (cards s first)
                          (int (length (page_widgets s))) x y)
                       (page_widgets s) of
                  Inl e \<Rightarrow> Inl e
                | Inr None \<Rightarrow> Inr s
                | Inr (Some ws') \<Rightarrow> Inr (reflow_grid (s\<lparr>page_widgets := ws'\<rparr>)))))"

section \<open>Worker threads\<close>

text \<open>
  What one call of a thread's target does: the events it puts on the progress queue, in
  order, and then either the exception it raises or the value it returns (the value
  carries the call's other effects, such as the file it wrote).
\<close>

type_synonym 'a target = "event list \<times> (py_exception + 'a)"

text \<open>
  \<open>WorkerThread.run\<close> on the queue \<open>q\<close>. \<open>has_queue\<close> says whether the thread was given
  a progress queue (a queue object is always true in Python). The result is the queue
  afterwards and the exception that leaves \<open>run\<close>, if any.
\<close>

definition WorkerThread_run :: "bool \<Rightarrow> 'a target \<Rightarrow> event list \<Rightarrow> event list \<times> py_exception option" where
  "WorkerThread_run has_queue tgt q =
     (case tgt of
        (evs, Inr v) \<Rightarrow> (q @ evs, None)
      | (evs, Inl e) \<Rightarrow>
          if has_queue then (q @ evs @ [Error (str_of e)], None)
          else (q @ evs, Some e))"

text \<open>\<open>MainApp.run_worker\<close>: the thread always gets the application's queue. The thread
  is run to its end here; the events arrive in the order the thread puts them.\<close>

definition run_worker :: "'a target \<Rightarrow> MainApp \<Rightarrow> MainApp" where
  "run_worker tgt a =
     (let a1 = a\<lparr>status := ''Working...'', progress_var := 0\<rparr>;
          (q, uncaught) = WorkerThread_run True tgt (progress_queue a1)
      in a1\<lparr>threads_started := Suc (threads_started a1), progress_queue := q\<rparr>)"

section \<open>Text helpers\<close>

text \<open>\<open>str(n)\<close> for a natural number, and \<open>os.path.basename\<close> with \<open>/\<close> as the
  separator.\<close>

definition digit_char :: "nat \<Rightarrow> char" where
  "digit_char d = ''0123456789'' ! d"

fun str_nat :: "nat \<Rightarrow> string" where
  "str_nat n = (if n < 10 then [digit_char n] else str_nat (n div 10) @ [digit_char (n mod 10)])"

declare str_nat.simps [simp del]

definition os_path_basename :: "string \<Rightarrow> string" where
  "os_path_basename p = rev (takeWhile (\<lambda>c. c \<noteq> CHR ''/'') (rev p))"

section \<open>Loading pages into the organizer\<close>

text \<open>
  \<open>_render_worker\<close>. The outcome of \<open>fitz.open(path)\<close> with \<open>len(doc)\<close> is the parameter
  \<open>doc\<close>; whether rendering page \<open>i\<close> raises is \<open>render i\<close>. The percentage is a
  floating-point expression, \<open>int(((i+1)/total)*50)\<close>, and is the parameter \<open>pct\<close>,
  applied to \<open>i+1\<close> and the total \<open>tot\<close>. The call returns the \<open>page_data\<close> it schedules for
  \<open>_append_to_grid\<close>, or \<open>None\<close> after a failure.
\<close>

fun render_loop ::
  "(nat \<Rightarrow> nat \<Rightarrow> int) \<Rightarrow> (nat \<Rightarrow> py_exception option) \<Rightarrow> string \<Rightarrow> nat \<Rightarrow> nat list
     \<Rightarrow> page_data list \<Rightarrow> event list \<Rightarrow> event list \<times> (py_exception + page_data list)" where
  "render_loop pct render p tot [] pd evs = (evs, Inr pd)"
| "render_loop pct render p tot (i # rest) pd evs =
     (case render i of
        Some e \<Rightarrow> (evs, Inl e)
      | None \<Rightarrow>
          render_loop pct render p tot rest (pd @ [\<lparr>index = i, path = p\<rparr>])
            (evs @ [Progress (pct (i + 1) tot),
                    Status (''Rendering '' @ str_nat (i + 1) @ ''/'' @ str_nat tot
                            @ '' from '' @ os_path_basename p)]))"

definition render_worker ::
  "(nat \<Rightarrow> nat \<Rightarrow> int) \<Rightarrow> py_exception + nat \<Rightarrow> (nat \<Rightarrow> py_exception option) \<Rightarrow> string
     \<Rightarrow> (page_data list option) target" where
  "render_worker pct doc render p =
     (case doc of
        Inl e \<Rightarrow> ([Error (''Could not render PDF: '' @ str_of e)], Inr None)
      | Inr tot \<Rightarrow>
          (case render_loop pct render p tot [0..<tot] [] [] of
             (evs, Inl e) \<Rightarrow> (evs @ [Error (''Could not render PDF: '' @ str_of e)], Inr None)
           | (evs, Inr pd) \<Rightarrow> (evs, Inr (Some pd))))"

text \<open>The worker is started on \<open>_render_worker\<close>; when it has scheduled \<open>_append_to_grid\<close>,
  that call follows on the main thread.\<close>

definition run_render ::
  "(nat \<Rightarrow> nat \<Rightarrow> int) \<Rightarrow> py_exception + nat \<Rightarrow> (nat \<Rightarrow> py_exception option) \<Rightarrow> string
     \<Rightarrow> int option \<Rightarrow> OrganizePage \<Rightarrow> OrganizePage" where
  "run_render pct doc render p insert_idx s =
     (let tgt = render_worker pct doc render p;
          s1 = s\<lparr>app := run_worker tgt (app s)\<rparr>
      in case snd tgt of
           Inr (Some pd) \<Rightarrow> append_to_grid pd insert_idx s1
         | _ \<Rightarrow> s1)"

definition deselect_all :: "OrganizePage \<Rightarrow> OrganizePage" where
  "deselect_all s = s\<lparr>selected_card := None\<rparr>"

text \<open>The three ways to load pages. \<open>p\<close> is what the file dialog returned, the empty
  string when it was cancelled.\<close>

definition load_pdf_clear ::
  "(nat \<Rightarrow> nat \<Rightarrow> int) \<Rightarrow> py_exception + nat \<Rightarrow> (nat \<Rightarrow> py_exception option) \<Rightarrow> string
     \<Rightarrow> OrganizePage \<Rightarrow> OrganizePage" where
  "load_pdf_clear pct doc render p s =
     (if p = [] then s
      else let s1 = deselect_all s;
               s2 = fold destroy (page_widgets s1) s1;
               s3 = s2\<lparr>page_widgets := []\<rparr>
           in run_render pct doc render p None s3)"

definition add_pdf_append ::
  "(nat \<Rightarrow> nat \<Rightarrow> int) \<Rightarrow> py_exception + nat \<Rightarrow> (nat \<Rightarrow> py_exception option) \<Rightarrow> string
     \<Rightarrow> OrganizePage \<Rightarrow> OrganizePage" where
  "add_pdf_append pct doc render p s =
     (if p = [] then s else run_render pct doc render p None s)"

definition insert_pages_here ::
  "(nat \<Rightarrow> nat \<Rightarrow> int) \<Rightarrow> py_exception + nat \<Rightarrow> (nat \<Rightarrow> py_exception option) \<Rightarrow> string
     \<Rightarrow> ref \<Rightarrow> bool \<Rightarrow> OrganizePage \<Rightarrow> py_exception + OrganizePage" where
  "insert_pages_here pct doc render p target_card before s =
     (if p = [] then Inr s
      else case py_index target_card (page_widgets s) of
             Inl e \<Rightarrow> Inl e
           | Inr idx \<Rightarrow>
               Inr (run_render pct doc render p
                      (Some (if before then int idx else int idx + 1)) s))"

section \<open>Saving the organized pages\<close>

text \<open>
  A page handed to \<open>writer.add_page\<close>: its source file, its index there, and the angle
  passed to \<open>page.rotate\<close> just before (0 when \<open>rotate\<close> is not called). \<open>page.rotate\<close>
  and \<open>add_page\<close> are taken not to raise.
  \<open>PdfReader src\<close> is the outcome of opening \<open>src\<close> at save time: an exception, or the
  number of pages of the file as it is then. \<open>readers\<close> is the cache dictionary of the loop.
\<close>

type_synonym out_page = "string \<times> nat \<times> int"

text \<open>The page a card contributes: \<open>rot = card.rotation % 360\<close> is the angle passed to
  \<open>page.rotate\<close> (for a positive modulus Python's \<open>%\<close> is \<open>mod\<close> on \<open>int\<close>).\<close>

definition out_page_of :: "PageCard \<Rightarrow> out_page" where
  "out_page_of c = (source_path c, orig_index c, rotation c mod 360)"

text \<open>The number of pages a source has when it is read at save time (0 stands for a file
  that cannot be read; it is used only where the file can be read).\<close>

definition pages_at_save :: "(string \<Rightarrow> py_exception + nat) \<Rightarrow> string \<Rightarrow> nat" where
  "pages_at_save PdfReader src = (case PdfReader src of Inr n \<Rightarrow> n | Inl e \<Rightarrow> 0)"

text \<open>The two events the save loop puts after card number \<open>i\<close> (counted from 0).\<close>

definition save_progress :: "(nat \<Rightarrow> nat \<Rightarrow> int) \<Rightarrow> nat \<Rightarrow> nat \<Rightarrow> event list" where
  "save_progress pct tot i =
     [Progress (pct (i + 1) tot),
      Status (''Saving page '' @ str_nat (i + 1) @ ''/'' @ str_nat tot)]"

fun save_loop ::
  "(nat \<Rightarrow> nat \<Rightarrow> int) \<Rightarrow> (string \<Rightarrow> py_exception + nat) \<Rightarrow> (ref \<Rightarrow> PageCard) \<Rightarrow> nat \<Rightarrow> nat
     \<Rightarrow> ref list \<Rightarrow> (string \<rightharpoonup> nat) \<Rightarrow> out_page list \<Rightarrow> event list
     \<Rightarrow> event list \<times> (py_exception + out_page list)" where
  "save_loop pct PdfReader cs tot i [] readers writer evs = (evs, Inr writer)"
| "save_loop pct PdfReader cs tot i (c # rest) readers writer evs =
     (let src = source_path (cs c) in
      case (case readers src of
              Some n \<Rightarrow> Inr (readers, n)
            | None \<Rightarrow>
                (case PdfReader src of
                   Inl e \<Rightarrow> Inl e
                 | Inr n \<Rightarrow> Inr (readers(src \<mapsto> n), n))) of
        Inl e \<Rightarrow> (evs, Inl e)
      | Inr (readers', n) \<Rightarrow>
          save_loop pct PdfReader cs tot (Suc i) rest readers'
            (if orig_index (cs c) < n then writer @ [out_page_of (cs c)] else writer)
            (evs @ save_progress pct tot i))"

text \<open>
  The \<open>job\<close> closure of \<open>save_pdf\<close>, with its own \<open>try\<close>/\<open>except\<close>: it never raises. It
  returns the pages of the file it wrote, or \<open>None\<close> when no file was completed.
  \<open>write_out out\<close> is the outcome of opening \<open>out\<close> for writing and writing the file.
\<close>

definition save_job ::
  "(nat \<Rightarrow> nat \<Rightarrow> int) \<Rightarrow> (string \<Rightarrow> py_exception + nat) \<Rightarrow> (string \<Rightarrow> py_exception option)
     \<Rightarrow> string \<Rightarrow> OrganizePage \<Rightarrow> (out_page list option) target" where
  "save_job pct PdfReader write_out out s =
     (case save_loop pct PdfReader (cards s) (length (page_widgets s)) 0 (page_widgets s)
             Map.empty [] [] of
        (evs, Inl e) \<Rightarrow> (evs @ [Error (str_of e)], Inr None)
      | (evs, Inr writer) \<Rightarrow>
          (case write_out out of
             Some e \<Rightarrow> (evs @ [Error (str_of e)], Inr None)
           | None \<Rightarrow>
               (evs @ [Status (''Saved organized PDF to: '' @ out),
                       Done (''Saved organized PDF to: '' @ out)], Inr (Some writer))))"

text \<open>\<open>save_pdf\<close>: nothing happens with an empty list or a cancelled dialog (\<open>out\<close>
  empty). The result is the new state and the pages of the file written, if any.\<close>

definition save_pdf ::
  "(nat \<Rightarrow> nat \<Rightarrow> int) \<Rightarrow> (string \<Rightarrow> py_exception + nat) \<Rightarrow> (string \<Rightarrow> py_exception option)
     \<Rightarrow> string \<Rightarrow> OrganizePage \<Rightarrow> OrganizePage \<times> out_page list option" where
  "save_pdf pct PdfReader write_out out s =
     (if page_widgets s = [] then (s, None)
      else if out = [] then (s, None)
      else let job = save_job pct PdfReader write_out out s
           in (s\<lparr>app := run_worker job (app s)\<rparr>,
               case snd job of Inr (Some pages) \<Rightarrow> Some pages | _ \<Rightarrow> None))"

section \<open>Python strings\<close>

text \<open>
  A string is a list of characters, each a code point below 256. \<open>py_isspace\<close> holds for
  the characters below 256 that Python's \<open>str.strip\<close> takes for whitespace.
  Characters beyond that range (other Unicode spaces and digits) are outside the model.
\<close>

definition py_isspace :: "char \<Rightarrow> bool" where
  "py_isspace c \<longleftrightarrow>
     c \<in> set [CHR 0x09, CHR 0x0A, CHR 0x0B, CHR 0x0C, CHR 0x0D, CHR 0x1C, CHR 0x1D, CHR 0x1E,
              CHR 0x1F, CHR '' '', CHR 0x85, CHR 0xA0]"

text \<open>\<open>s.strip()\<close>, \<open>s.replace(" ", "")\<close>, \<open>s.split(sep)\<close> for a one-character separator,
  and \<open>s.split(sep, 1)\<close> for a string that contains the separator.\<close>

definition py_strip :: "string \<Rightarrow> string" where
  "py_strip s = rev (dropWhile py_isspace (rev (dropWhile py_isspace s)))"

definition remove_spaces :: "string \<Rightarrow> string" where
  "remove_spaces s = filter (\<lambda>c. c \<noteq> CHR '' '') s"

fun py_split :: "char \<Rightarrow> string \<Rightarrow> string list" where
  "py_split sep [] = [[]]"
| "py_split sep (c # cs) =
     (if c = sep then [] # py_split sep cs
      else (case py_split sep cs of w # ws \<Rightarrow> (c # w) # ws | [] \<Rightarrow> [[c]]))"

definition split_first :: "char \<Rightarrow> string \<Rightarrow> string \<times> string" where
  "split_first sep s = (takeWhile (\<lambda>c. c \<noteq> sep) s, drop 1 (dropWhile (\<lambda>c. c \<noteq> sep) s))"

text \<open>
  \<open>int(s)\<close> for a string (CPython 3.11, whose default limit on the number of digits is
  4300). Whitespace at both ends is dropped; \<open>int\<close> takes fewer characters for whitespace
  than \<open>strip\<close> does: the four separators \<open>0x1C\<close> to \<open>0x1F\<close> are not among them. Then
  come an optional sign and a run of decimal digits in which single underscores may
  stand between digits; the digits, not counting underscores and sign, may be at most
  \<open>int_max_str_digits\<close>. Anything else is ValueError, here \<open>None\<close>.
\<close>

definition int_isspace :: "char \<Rightarrow> bool" where
  "int_isspace c \<longleftrightarrow>
     c \<in> set [CHR 0x09, CHR 0x0A, CHR 0x0B, CHR 0x0C, CHR 0x0D, CHR '' '', CHR 0x85, CHR 0xA0]"

definition int_strip :: "string \<Rightarrow> string" where
  "int_strip s = rev (dropWhile int_isspace (rev (dropWhile int_isspace s)))"

definition int_max_str_digits :: nat where
  "int_max_str_digits = 4300"

definition is_digit :: "char \<Rightarrow> bool" where
  "is_digit c \<longleftrightarrow> c \<in> set ''0123456789''"

definition digit_value :: "char \<Rightarrow> int" where
  "digit_value c = int (length (takeWhile (\<lambda>d. d \<noteq> c) ''0123456789''))"

fun digitpart :: "string \<Rightarrow> bool" where
  "digitpart [] = False"
| "digitpart [c] = is_digit c"
| "digitpart (c # d # rest) =
     (is_digit c \<and> (if d = CHR ''_'' then digitpart rest else digitpart (d # rest)))"

definition digits_value :: "string \<Rightarrow> int" where
  "digits_value s = foldl (\<lambda>acc c. 10 * acc + digit_value c) 0 (filter (\<lambda>c. c \<noteq> CHR ''_'') s)"

definition int_digits :: "string \<Rightarrow> int option" where
  "int_digits d =
     (if digitpart d \<and> length (filter (\<lambda>c. c \<noteq> CHR ''_'') d) \<le> int_max_str_digits
      then Some (digits_value d) else None)"

definition py_int :: "string \<Rightarrow> int option" where
  "py_int s =
     (case int_strip s of
        [] \<Rightarrow> None
      | c # r \<Rightarrow>
          if c = CHR ''+'' then int_digits r
          else if c = CHR ''-'' then map_option uminus (int_digits r)
          else int_digits (c # r))"

definition str_int :: "int \<Rightarrow> string" where
  "str_int i = (if i < 0 then CHR ''-'' # str_nat (nat (- i)) else str_nat (nat i))"

section \<open>Page ranges\<close>

text \<open>The list \<open>parts\<close> of \<open>parse_ranges\<close>, from the stripped text.\<close>

definition range_parts :: "string \<Rightarrow> string list" where
  "range_parts text =
     map py_strip (filter (\<lambda>p. py_strip p \<noteq> []) (py_split (CHR '','') (remove_spaces text)))"

definition clamp_page :: "int \<Rightarrow> int \<Rightarrow> int" where
  "clamp_page total_pages p = max 1 (min total_pages p)"

text \<open>One round of the loop of \<open>parse_ranges\<close>: the pair a part stands for, or the
  ValueError it raises.\<close>

definition clamp_check :: "int \<Rightarrow> string \<Rightarrow> int \<Rightarrow> int \<Rightarrow> py_exception + int \<times> int" where
  "clamp_check total_pages part start0 end0 =
     (let start = clamp_page total_pages start0;
          end = clamp_page total_pages end0
      in if start > end
         then Inl (ValueError (''Start page '' @ str_int start @ '' cannot be after end page ''
                               @ str_int end @ '' in range: '' @ part))
         else Inr (start, end))"

definition parse_part :: "int \<Rightarrow> string \<Rightarrow> py_exception + int \<times> int" where
  "parse_part total_pages part =
     (if CHR ''-'' \<in> set part
      then (let (left, right) = split_first (CHR ''-'') part
            in if left = [] \<and> right = []
               then Inl (ValueError (''Range '-' is not valid: '' @ part))
               else (case (if left \<noteq> [] then py_int left else Some 1,
                           if right \<noteq> [] then py_int right else Some total_pages) of
                       (Some start, Some end) \<Rightarrow> clamp_check total_pages part start end
                     | _ \<Rightarrow> Inl (ValueError (''Invalid characters in range: '' @ part))))
      else (case py_int part of
              Some n \<Rightarrow> clamp_check total_pages part n n
            | None \<Rightarrow> Inl (ValueError (''Invalid characters in page number: '' @ part))))"

fun parse_loop :: "int \<Rightarrow> string list \<Rightarrow> (int \<times> int) list \<Rightarrow> py_exception + (int \<times> int) list" where
  "parse_loop total_pages [] result = Inr result"
| "parse_loop total_pages (part # parts) result =
     (case parse_part total_pages part of
        Inl e \<Rightarrow> Inl e
      | Inr r \<Rightarrow> parse_loop total_pages parts (result @ [r]))"

definition parse_ranges :: "string \<Rightarrow> int \<Rightarrow> py_exception + (int \<times> int) list" where
  "parse_ranges ranges_text total_pages =
     (let text = py_strip ranges_text
      in if text = [] then Inr [] else parse_loop total_pages (range_parts text) [])"

subsection \<open>The range grammar in the words of the specification\<close>

text \<open>
  The fields of a token where a page number is expected: the token itself when it has no
  dash, otherwise the sides of its first dash that are not empty.
\<close>

definition page_number_fields :: "string \<Rightarrow> string list" where
  "page_number_fields tok =
     (if CHR ''-'' \<in> set tok
      then (let (a, b) = split_first (CHR ''-'') tok in filter (\<lambda>f. f \<noteq> []) [a, b])
      else [tok])"

text \<open>
  What a token stands for: \<open>N\<close> is \<open>(N, N)\<close>; in \<open>A-B\<close> a missing \<open>A\<close> is 1 and a missing
  \<open>B\<close> is the page count; both ends are clamped. \<open>None\<close> when a field is not a number.
\<close>

definition spec_token_range :: "int \<Rightarrow> string \<Rightarrow> (int \<times> int) option" where
  "spec_token_range total_pages tok =
     (if CHR ''-'' \<in> set tok
      then (let (a, b) = split_first (CHR ''-'') tok
            in case (if a = [] then Some 1 else py_int a,
                     if b = [] then Some total_pages else py_int b) of
                 (Some x, Some y) \<Rightarrow> Some (clamp_page total_pages x, clamp_page total_pages y)
               | _ \<Rightarrow> None)
      else (case py_int tok of
              Some n \<Rightarrow> Some (clamp_page total_pages n, clamp_page total_pages n)
            | None \<Rightarrow> None))"

text \<open>"Non-numeric characters appear where a page number is expected", read literally: a
  field holds a character that is not a digit.\<close>

definition non_numeric_field :: "string \<Rightarrow> bool" where
  "non_numeric_field f \<longleftrightarrow> (\<exists>c \<in> set f. \<not> is_digit c)"

definition start_after_end :: "int \<Rightarrow> string \<Rightarrow> bool" where
  "start_after_end total_pages tok =
     (case spec_token_range total_pages tok of Some (a, b) \<Rightarrow> a > b | None \<Rightarrow> False)"

text \<open>The three reasons for InvalidRangeError as the specification words them, and as the
  code has them (a field is rejected when \<open>int\<close> rejects it).\<close>

definition spec_invalid_token :: "int \<Rightarrow> string \<Rightarrow> bool" where
  "spec_invalid_token total_pages tok \<longleftrightarrow>
     tok = ''-''
     \<or> (\<exists>f \<in> set (page_number_fields tok). non_numeric_field f)
     \<or> start_after_end total_pages tok"

definition too_many_digits :: "string \<Rightarrow> bool" where
  "too_many_digits f \<longleftrightarrow> int_max_str_digits < length f"

definition token_rejected :: "int \<Rightarrow> string \<Rightarrow> bool" where
  "token_rejected total_pages tok \<longleftrightarrow>
     tok = ''-''
     \<or> (\<exists>f \<in> set (page_number_fields tok). py_int f = None)
     \<or> start_after_end total_pages tok"

section \<open>Split / Extract\<close>

definition show_dialog :: "dialog \<Rightarrow> MainApp \<Rightarrow> MainApp" where
  "show_dialog d a = a\<lparr>dialogs := dialogs a @ [d]\<rparr>"

text \<open>\<open>r.pages[i]\<close> for a reader with \<open>n\<close> pages: the page index, or IndexError.\<close>

definition pages_getitem :: "nat \<Rightarrow> int \<Rightarrow> py_exception + nat" where
  "pages_getitem n i =
     (let j = (if i < 0 then int n + i else i)
      in if 0 \<le> j \<and> j < int n then Inr (nat j)
         else Inl (IndexError ''sequence index out of range''))"

fun read_pages :: "nat \<Rightarrow> int list \<Rightarrow> py_exception + nat list" where
  "read_pages n [] = Inr []"
| "read_pages n (i # rest) =
     (case pages_getitem n i of
        Inl e \<Rightarrow> Inl e
      | Inr pg \<Rightarrow> (case read_pages n rest of Inl e \<Rightarrow> Inl e | Inr pgs \<Rightarrow> Inr (pg # pgs)))"

text \<open>The values of \<open>i\<close> in \<open>for start, end in ranges: for i in range(start - 1, end)\<close>.\<close>

definition range_indices :: "(int \<times> int) list \<Rightarrow> int list" where
  "range_indices ranges = concat (map (\<lambda>(s, e). [s - 1..e - 1]) ranges)"

definition safe_range_str :: "string \<Rightarrow> string" where
  "safe_range_str range_str =
     map (\<lambda>c. if c = CHR ''-'' then CHR ''_'' else c) (remove_spaces range_str)"

text \<open>
  The loop of \<open>extract\<close> over the individual range texts. \<open>base_name\<close> is the file name of
  the picked PDF without its extension; \<open>os.path.join\<close> puts \<open>/\<close> between directory and
  file name.
\<close>

fun extract_loop ::
  "string \<Rightarrow> string \<Rightarrow> nat \<Rightarrow> string list \<Rightarrow> (string \<times> nat list) list
     \<Rightarrow> py_exception + (string \<times> nat list) list" where
  "extract_loop out_dir base_name total_pages [] save_destinations = Inr save_destinations"
| "extract_loop out_dir base_name total_pages (range_str # rest) save_destinations =
     (case parse_ranges range_str (int total_pages) of
        Inl e \<Rightarrow> Inl e
      | Inr ranges_to_extract \<Rightarrow>
          (case read_pages total_pages (range_indices ranges_to_extract) of
             Inl e \<Rightarrow> Inl e
           | Inr pages_to_write \<Rightarrow>
               extract_loop out_dir base_name total_pages rest
                 (if pages_to_write \<noteq> []
                  then save_destinations @
                         [(out_dir @ ''/'' @ base_name @ ''_'' @ safe_range_str range_str @ ''.pdf'',
                           pages_to_write)]
                  else save_destinations)))"

text \<open>
  \<open>job_multi_split\<close>. \<open>write_file p\<close> is the outcome of creating the directory of \<open>p\<close> and
  writing the file; \<open>pct idx total_files\<close> is \<open>int((idx/total_files)*100)\<close>. The job has no
  handler of its own: an exception leaves it. It returns the files written.
\<close>

fun split_loop ::
  "(nat \<Rightarrow> nat \<Rightarrow> int) \<Rightarrow> (string \<Rightarrow> py_exception option) \<Rightarrow> nat \<Rightarrow> nat
     \<Rightarrow> (string \<times> nat list) list \<Rightarrow> event list \<Rightarrow> (string \<times> nat list) list
     \<Rightarrow> event list \<times> (py_exception + (string \<times> nat list) list)" where
  "split_loop pct write_file total_files idx [] evs written = (evs, Inr written)"
| "split_loop pct write_file total_files idx ((out_path, pages_list) # rest) evs written =
     (let evs' = evs @ [Progress (pct idx total_files),
                        Status (''Writing split file '' @ str_nat (idx + 1) @ ''/''
                                @ str_nat total_files @ '': '' @ os_path_basename out_path)]
      in case write_file out_path of
           Some e \<Rightarrow> (evs', Inl e)
         | None \<Rightarrow>
             split_loop pct write_file total_files (Suc idx) rest evs'
               (written @ [(out_path, pages_list)]))"

definition job_multi_split ::
  "(nat \<Rightarrow> nat \<Rightarrow> int) \<Rightarrow> (string \<Rightarrow> py_exception option) \<Rightarrow> string
     \<Rightarrow> (string \<times> nat list) list \<Rightarrow> ((string \<times> nat list) list) target" where
  "job_multi_split pct write_file out_dir save_destinations =
     (case split_loop pct write_file (length save_destinations) 0 save_destinations [] [] of
        (evs, Inl e) \<Rightarrow> (evs, Inl e)
      | (evs, Inr written) \<Rightarrow>
          (evs @ [Status (''Split complete! '' @ str_nat (length save_destinations)
                          @ '' files saved to '' @ out_dir @ ''.''),
                  Done (''Split complete! '' @ str_nat (length save_destinations)
                        @ '' files saved to '' @ out_dir @ ''.'')],
           Inr written))"

text \<open>The list \<open>individual_range_texts\<close> of \<open>extract\<close>, from the stripped entry text.\<close>

definition individual_range_texts :: "string \<Rightarrow> string list" where
  "individual_range_texts range_text =
     map py_strip (filter (\<lambda>t. py_strip t \<noteq> []) (py_split (CHR '','') range_text))"

text \<open>
  \<open>SplitPage.extract\<close>. \<open>self_path\<close> is \<open>self.path\<close> (empty when no file was picked),
  \<open>ent\<close> the text of the entry, \<open>out_dir\<close> what the directory dialog returned, \<open>reader\<close> the outcome
  of \<open>PdfReader(self.path)\<close> with \<open>len(r.pages)\<close>. A ValueError goes to the first handler,
  any other exception to the second.
\<close>

definition SplitPage_extract ::
  "(nat \<Rightarrow> nat \<Rightarrow> int) \<Rightarrow> (string \<Rightarrow> py_exception option) \<Rightarrow> string \<Rightarrow> string \<Rightarrow> string
     \<Rightarrow> string \<Rightarrow> py_exception + nat \<Rightarrow> MainApp \<Rightarrow> MainApp" where
  "SplitPage_extract pct write_file self_path ent out_dir base_name reader a =
     (if self_path = [] then show_dialog (showwarning ''Warning'' ''Pick a PDF first'') a
      else let range_text = py_strip ent in
        if range_text = []
        then show_dialog (showwarning ''Warning'' ''Enter page ranges (e.g., 1-184, 185).'') a
        else if out_dir = [] then a
        else (case (case reader of
                      Inl e \<Rightarrow> Inl e
                    | Inr total_pages \<Rightarrow>
                        extract_loop out_dir base_name total_pages
                          (individual_range_texts range_text) []) of
                Inl (ValueError m) \<Rightarrow> show_dialog (showerror ''Invalid Range'' m) a
              | Inl e \<Rightarrow> show_dialog (showerror ''Error'' (''An error occurred: '' @ str_of e)) a
              | Inr save_destinations \<Rightarrow>
                  if save_destinations = []
                  then show_dialog
                         (showwarning ''Warning''
                            ''No pages matched the provided ranges or the ranges were invalid.'') a
                  else run_worker (job_multi_split pct write_file out_dir save_destinations) a))"

section \<open>Watermark\<close>

text \<open>The range list of both watermark jobs: the whole document when the entry is blank.\<close>

definition parsed_ranges_list :: "string \<Rightarrow> nat \<Rightarrow> py_exception + (int \<times> int) list" where
  "parsed_ranges_list range_entry tot =
     (if py_strip range_entry \<noteq> [] then parse_ranges range_entry (int tot)
      else Inr [(1, int tot)])"

text \<open>
  The page loop of \<open>apply_to_single\<close>. \<open>merge idx\<close> is the outcome of building the overlay
  and merging it into page \<open>idx\<close>: an exception, or whether an overlay was merged. The
  writer collects each page index with that flag.
\<close>

fun watermark_loop ::
  "(nat \<Rightarrow> nat \<Rightarrow> int) \<Rightarrow> (nat \<Rightarrow> py_exception + bool) \<Rightarrow> int list \<Rightarrow> nat \<Rightarrow> nat list
     \<Rightarrow> (nat \<times> bool) list \<Rightarrow> event list \<Rightarrow> event list \<times> (py_exception + (nat \<times> bool) list)" where
  "watermark_loop pct merge selected_pages tot [] w evs = (evs, Inr w)"
| "watermark_loop pct merge selected_pages tot (idx # rest) w evs =
     (case (if int idx \<in> set selected_pages then merge idx else Inr False) of
        Inl e \<Rightarrow> (evs, Inl e)
      | Inr marked \<Rightarrow>
          watermark_loop pct merge selected_pages tot rest (w @ [(idx, marked)])
            (evs @ [Progress (pct (idx + 1) tot),
                    Status (''Processing page '' @ str_nat (idx + 1) @ ''/'' @ str_nat tot)]))"

text \<open>The \<open>job\<close> closure of \<open>apply_to_single\<close>: the range text is parsed here, inside the
  job; a parse failure is put on the queue as an \<open>Error\<close> and the job returns.\<close>

definition watermark_job ::
  "(nat \<Rightarrow> nat \<Rightarrow> int) \<Rightarrow> (nat \<Rightarrow> py_exception + bool) \<Rightarrow> (string \<Rightarrow> py_exception option)
     \<Rightarrow> string \<Rightarrow> string \<Rightarrow> nat \<Rightarrow> ((nat \<times> bool) list option) target" where
  "watermark_job pct merge write_out out range_entry tot =
     (case parsed_ranges_list range_entry tot of
        Inl e \<Rightarrow> ([Error (str_of e)], Inr None)
      | Inr parsed \<Rightarrow>
          (case watermark_loop pct merge (range_indices parsed) tot [0..<tot] [] [] of
             (evs, Inl e) \<Rightarrow> (evs, Inl e)
           | (evs, Inr w) \<Rightarrow>
               (case write_out out of
                  Some e \<Rightarrow> (evs, Inl e)
                | None \<Rightarrow>
                    (evs @ [Status (''Watermark applied successfully! Output saved to: '' @ out),
                            Done (''Watermark applied successfully! Output saved to: '' @ out)],
                     Inr (Some w)))))"

text \<open>
  \<open>WatermarkPage.apply_to_single\<close>. \<open>src\<close> is \<open>self.src\<close> (empty when unset), \<open>is_file\<close>
  what \<open>os.path.isfile\<close> says of it, \<open>out\<close> what the save dialog returned, \<open>reader\<close> the
  outcome of \<open>PdfReader(self.src)\<close> with the page count.
\<close>

definition apply_to_single ::
  "(nat \<Rightarrow> nat \<Rightarrow> int) \<Rightarrow> (nat \<Rightarrow> py_exception + bool) \<Rightarrow> (string \<Rightarrow> py_exception option)
     \<Rightarrow> string \<Rightarrow> bool \<Rightarrow> string \<Rightarrow> py_exception + nat \<Rightarrow> string \<Rightarrow> MainApp \<Rightarrow> MainApp" where
  "apply_to_single pct merge write_out src is_file out reader range_entry a =
     (if src = [] \<or> \<not> is_file
      then show_dialog (showwarning ''Warning'' ''Pick a source PDF file first.'') a
      else if out = [] then a
      else (case reader of
              Inl e \<Rightarrow>
                show_dialog (showerror ''Error'' (''Failed reading source:'' @ [CHR 0x0A] @ str_of e)) a
            | Inr tot \<Rightarrow> run_worker (watermark_job pct merge write_out out range_entry tot) a))"

text \<open>
  One file of the batch job: \<open>Inl e\<close> when the range text does not parse (the job puts the
  error and returns), \<open>Inr None\<close> when the file is skipped because some other step raised
  (the exception is printed), \<open>Inr (Some f)\<close> when the file was written.
\<close>

fun mark_pages ::
  "(nat \<Rightarrow> py_exception + bool) \<Rightarrow> int list \<Rightarrow> nat list \<Rightarrow> py_exception + (nat \<times> bool) list" where
  "mark_pages merge selected_pages [] = Inr []"
| "mark_pages merge selected_pages (i # rest) =
     (case (if int i \<in> set selected_pages then merge i else Inr False) of
        Inl e \<Rightarrow> Inl e
      | Inr marked \<Rightarrow>
          (case mark_pages merge selected_pages rest of
             Inl e \<Rightarrow> Inl e
           | Inr w \<Rightarrow> Inr ((i, marked) # w)))"

definition folder_file ::
  "(string \<Rightarrow> py_exception + nat) \<Rightarrow> (string \<Rightarrow> nat \<Rightarrow> py_exception + bool)
     \<Rightarrow> (string \<Rightarrow> py_exception option) \<Rightarrow> string \<Rightarrow> string \<Rightarrow> string
     \<Rightarrow> py_exception + (string \<times> (nat \<times> bool) list) option" where
  "folder_file PdfReader merge write_file out_dir range_entry p =
     (case PdfReader p of
        Inl e \<Rightarrow> Inr None
      | Inr total_pages \<Rightarrow>
          (case parsed_ranges_list range_entry total_pages of
             Inl e \<Rightarrow> Inl e
           | Inr parsed \<Rightarrow>
               (case mark_pages (merge p) (range_indices parsed) [0..<total_pages] of
                  Inl e \<Rightarrow> Inr None
                | Inr w \<Rightarrow>
                    (case write_file (out_dir @ ''/'' @ os_path_basename p) of
                       Some e \<Rightarrow> Inr None
                     | None \<Rightarrow> Inr (Some (out_dir @ ''/'' @ os_path_basename p, w))))))"

text \<open>The loop of the batch job, \<open>idx\<close> counting from 1. The flag in the result is False
  when the job returned early.\<close>

fun folder_loop ::
  "(nat \<Rightarrow> nat \<Rightarrow> int) \<Rightarrow> (string \<Rightarrow> py_exception + nat) \<Rightarrow> (string \<Rightarrow> nat \<Rightarrow> py_exception + bool)
     \<Rightarrow> (string \<Rightarrow> py_exception option) \<Rightarrow> string \<Rightarrow> string \<Rightarrow> nat \<Rightarrow> nat \<Rightarrow> string list
     \<Rightarrow> event list \<Rightarrow> (string \<times> (nat \<times> bool) list) list
     \<Rightarrow> event list \<times> bool \<times> (string \<times> (nat \<times> bool) list) list" where
  "folder_loop pct PdfReader merge write_file out_dir range_entry total_files idx [] evs written =
     (evs, True, written)"
| "folder_loop pct PdfReader merge write_file out_dir range_entry total_files idx (p # rest) evs
       written =
     (case folder_file PdfReader merge write_file out_dir range_entry p of
        Inl e \<Rightarrow> (evs @ [Error (str_of e)], False, written)
      | Inr f \<Rightarrow>
          folder_loop pct PdfReader merge write_file out_dir range_entry total_files (Suc idx) rest
            (evs @ [Progress (pct idx total_files),
                    Status (''Processed '' @ str_nat idx @ ''/'' @ str_nat total_files)])
            (case f of None \<Rightarrow> written | Some x \<Rightarrow> written @ [x]))"

definition folder_job ::
  "(nat \<Rightarrow> nat \<Rightarrow> int) \<Rightarrow> (string \<Rightarrow> py_exception + nat) \<Rightarrow> (string \<Rightarrow> nat \<Rightarrow> py_exception + bool)
     \<Rightarrow> (string \<Rightarrow> py_exception option) \<Rightarrow> string \<Rightarrow> string \<Rightarrow> string list
     \<Rightarrow> ((string \<times> (nat \<times> bool) list) list) target" where
  "folder_job pct PdfReader merge write_file out_dir range_entry pdfs =
     (case folder_loop pct PdfReader merge write_file out_dir range_entry (length pdfs) 1 pdfs
             [] [] of
        (evs, False, written) \<Rightarrow> (evs, Inr written)
      | (evs, True, written) \<Rightarrow>
          (evs @ [Status (''Batch watermark complete! '' @ str_nat (length pdfs)
                          @ '' files saved to: '' @ out_dir),
                  Done (''Batch watermark complete! '' @ str_nat (length pdfs)
                        @ '' files saved to: '' @ out_dir)],
           Inr written))"

text \<open>\<open>WatermarkPage.apply_to_folder\<close>. \<open>pdfs\<close> lists the PDF files found in the folder.\<close>

definition apply_to_folder ::
  "(nat \<Rightarrow> nat \<Rightarrow> int) \<Rightarrow> (string \<Rightarrow> py_exception + nat) \<Rightarrow> (string \<Rightarrow> nat \<Rightarrow> py_exception + bool)
     \<Rightarrow> (string \<Rightarrow> py_exception option) \<Rightarrow> string \<Rightarrow> bool \<Rightarrow> string \<Rightarrow> string list \<Rightarrow> string
     \<Rightarrow> MainApp \<Rightarrow> MainApp" where
  "apply_to_folder pct PdfReader merge write_file src is_dir out_dir pdfs range_entry a =
     (if src = [] \<or> \<not> is_dir
      then show_dialog (showwarning ''Warning'' ''Pick a folder first (Batch).'') a
      else if out_dir = [] then a
      else if pdfs = [] then show_dialog (showinfo ''Info'' ''No PDF files found in folder.'') a
      else run_worker
             (folder_job pct PdfReader merge write_file out_dir range_entry pdfs) a)"

section \<open>Grid round-trip\<close>

lemma reflow_loop_length: "length (reflow_loop C ws row col) = length ws"
  by (induction ws arbitrary: row col) auto

lemma reflow_loop_nth:
  assumes "0 < C" "0 \<le> col" "col < C" "i < length ws"
  shows "reflow_loop C ws row col ! i =
           (ws ! i, row + (col + int i) div C, (col + int i) mod C)"
  using assms
proof (induction ws arbitrary: row col i)
  case Nil
  then show ?case by simp
next
  case (Cons w ws)
  show ?case
  proof (cases i)
    case 0
    with Cons.prems show ?thesis by simp
  next
    case (Suc j)
    with Cons.prems have j: "j < length ws" by simp
    show ?thesis
    proof (cases "col + 1 \<ge> C")
      case True
      with Cons.prems have c: "col + 1 = C" by simp
      have eq: "col + int (Suc j) = int j + C" using c by simp
      have nz: "C \<noteq> 0" using Cons.prems(1) by simp
      have d: "(col + int (Suc j)) div C = 1 + int j div C"
        unfolding eq using div_add_self2 [OF nz, of "int j"] by simp
      have m: "(col + int (Suc j)) mod C = int j mod C"
        unfolding eq by simp
      have "reflow_loop C (w # ws) row col ! i = reflow_loop C ws (row + 1) 0 ! j"
        using True Suc by simp
      also have "\<dots> = (ws ! j, row + 1 + (0 + int j) div C, (0 + int j) mod C)"
        using Cons.IH [of 0 j "row + 1"] Cons.prems(1) j by simp
      finally show ?thesis using Suc d m by simp
    next
      case False
      have e: "col + 1 + int j = col + int (Suc j)" by simp
      have "reflow_loop C (w # ws) row col ! i = reflow_loop C ws row (col + 1) ! j"
        using False Suc by simp
      also have "\<dots> = (ws ! j, row + (col + 1 + int j) div C, (col + 1 + int j) mod C)"
        using Cons.IH [of "col + 1" j row] Cons.prems False j by simp
      finally show ?thesis using Suc e by simp
    qed
  qed
qed

lemma reflow_loop_refs: "map fst (reflow_loop C ws row col) = ws"
  by (induction ws arbitrary: row col) auto

lemma fold_grid_other:
  "w \<notin> fst ` set calls \<Longrightarrow> fold grid_call calls g0 w = g0 w"
  by (induction calls arbitrary: g0) (auto simp: grid_call_def)

lemma fold_grid_distinct:
  "distinct (map fst calls) \<Longrightarrow> (w, rc) \<in> set calls \<Longrightarrow> fold grid_call calls g0 w = Some rc"
proof (induction calls arbitrary: g0)
  case Nil
  then show ?case by simp
next
  case (Cons c calls)
  show ?case
  proof (cases "(w, rc) = c")
    case True
    then have "fst c = w" by auto
    moreover have "fst c \<notin> set (map fst calls)" using Cons.prems(1) by simp
    ultimately have "w \<notin> fst ` set calls" by simp
    then have "fold grid_call calls (grid_call c g0) w = grid_call c g0 w"
      by (rule fold_grid_other)
    also have "\<dots> = Some rc" using True by (auto simp: grid_call_def)
    finally show ?thesis by simp
  next
    case False
    then have "(w, rc) \<in> set calls" using Cons.prems(2) by simp
    then show ?thesis using Cons.IH Cons.prems(1) by simp
  qed
qed

text \<open>
  C6. For a positive column count (5 in \<open>OrganizePage_init\<close>) the \<open>i\<close>-th card of the
  working list is placed by \<open>_reflow_grid\<close> at row \<open>i div C\<close> and column \<open>i mod C\<close>, and
  \<open>row * C + col\<close> gives \<open>i\<close> back. When no card is in the list twice, that is the
  placement the grid holds for the card afterwards.
\<close>

theorem grid_round_trip:
  assumes "0 < grid_cols s" and "i < length (page_widgets s)"
  shows "\<exists>row col.
           reflow_loop (grid_cols s) (page_widgets s) 0 0 ! i = (page_widgets s ! i, row, col)
         \<and> row = int i div grid_cols s \<and> col = int i mod grid_cols s
         \<and> row * grid_cols s + col = int i
         \<and> (distinct (page_widgets s) \<longrightarrow>
              grid (reflow_grid s) (page_widgets s ! i) = Some (row, col))"
proof -
  let ?calls = "reflow_loop (grid_cols s) (page_widgets s) 0 0"
  let ?row = "int i div grid_cols s" and ?col = "int i mod grid_cols s"
  have nth: "?calls ! i = (page_widgets s ! i, ?row, ?col)"
    using reflow_loop_nth [of "grid_cols s" 0 i "page_widgets s" 0] assms by simp
  have rt: "?row * grid_cols s + ?col = int i" by simp
  have g: "grid (reflow_grid s) (page_widgets s ! i) = Some (?row, ?col)"
    if d: "distinct (page_widgets s)"
  proof -
    have "i < length ?calls" using assms(2) by (simp add: reflow_loop_length)
    then have "(page_widgets s ! i, ?row, ?col) \<in> set ?calls"
      using nth nth_mem by metis
    moreover have "distinct (map fst ?calls)" using d by (simp add: reflow_loop_refs)
    ultimately show ?thesis
      using fold_grid_distinct [of ?calls "page_widgets s ! i" "(?row, ?col)" Map.empty]
      by (simp add: reflow_grid_def)
  qed
  show ?thesis using nth rt g by blast
qed

theorem grid_round_trip_witness:
  "reflow_loop (grid_cols OrganizePage_init) [10, 11, 12, 13, 14, 15, 16] 0 0 ! 6 = (16, 1, 1)
   \<and> grid_cols OrganizePage_init = 5
   \<and> grid (reflow_grid (OrganizePage_init\<lparr>page_widgets := [10, 11, 12, 13, 14, 15, 16]\<rparr>)) 16
       = Some (1, 1)"
  using grid_round_trip [of "OrganizePage_init\<lparr>page_widgets := [10, 11, 12, 13, 14, 15, 16]\<rparr>" 6]
  by (simp add: OrganizePage_init_def reflow_grid_def grid_call_def)

section \<open>Drag and drop: the move and its target\<close>

lemma py_index_Inr:
  "d \<in> set ws \<Longrightarrow> \<exists>cur. py_index d ws = Inr cur \<and> cur < length ws \<and> ws ! cur = d"
  by (induction ws) (auto split: sum.splits)

lemma filter_pop:
  assumes "cur < length ws" "ws ! cur = d"
  shows "filter (\<lambda>c. c \<noteq> d) (take cur ws @ drop (Suc cur) ws) = filter (\<lambda>c. c \<noteq> d) ws"
proof -
  have "ws = take cur ws @ d # drop (Suc cur) ws"
    using assms id_take_nth_drop by fastforce
  then have "filter (\<lambda>c. c \<noteq> d) ws = filter (\<lambda>c. c \<noteq> d) (take cur ws @ d # drop (Suc cur) ws)"
    by simp
  then show ?thesis by simp
qed

lemma py_insert_props:
  assumes "0 \<le> t" "t \<le> int (length ys)"
  shows "py_insert t d ys ! nat t = d"
    and "length (py_insert t d ys) = Suc (length ys)"
    and "filter (\<lambda>c. c \<noteq> d) (py_insert t d ys) = filter (\<lambda>c. c \<noteq> d) ys"
    and "py_insert t d ys = take (nat t) ys @ d # drop (nat t) ys"
proof -
  have e: "py_insert t d ys = take (nat t) ys @ d # drop (nat t) ys"
    using assms by (simp add: py_insert_def Let_def min_def)
  show "py_insert t d ys = take (nat t) ys @ d # drop (nat t) ys" by (rule e)
  have l: "length (take (nat t) ys) = nat t" using assms by simp
  show "py_insert t d ys ! nat t = d"
    unfolding e using l by (metis nth_append_length)
  show "length (py_insert t d ys) = Suc (length ys)" unfolding e by simp
  have "filter (\<lambda>c. c \<noteq> d) (take (nat t) ys @ d # drop (nat t) ys)
        = filter (\<lambda>c. c \<noteq> d) (take (nat t) ys @ drop (nat t) ys)"
    by (simp del: append_take_drop_id)
  also have "\<dots> = filter (\<lambda>c. c \<noteq> d) ys" by (simp only: append_take_drop_id)
  finally show "filter (\<lambda>c. c \<noteq> d) (py_insert t d ys) = filter (\<lambda>c. c \<noteq> d) ys"
    unfolding e .
qed

lemma on_drag_motion_reorder:
  assumes "drag_item s = Some d" "page_widgets s \<noteq> []"
  shows "on_drag_motion x y s =
           (case drag_reorder d
                   (drag_target_index (grid_cols s) (cards s (hd (page_widgets s)))
                      (int (length (page_widgets s))) x y)
                   (page_widgets s) of
              Inl e \<Rightarrow> Inl e
            | Inr None \<Rightarrow> Inr s
            | Inr (Some ws') \<Rightarrow> Inr (reflow_grid (s\<lparr>page_widgets := ws'\<rparr>)))"
  using assms by (cases "page_widgets s") (simp_all add: on_drag_motion_def)

text \<open>
  C2. Let \<open>d\<close> be the dragged card, present in the working list, and \<open>t\<close> any position of
  the list. The current position \<open>cur\<close> of \<open>d\<close> is found. If \<open>t = cur\<close> the list is not
  touched and \<open>on_drag_motion\<close> returns the state it was given. Otherwise the new list is
  the old one with \<open>d\<close> taken out at \<open>cur\<close> and put back at \<open>t\<close>: \<open>d\<close> is at position \<open>t\<close>,
  the length is the same, and the other cards keep their relative order.
\<close>

theorem stable_move:
  assumes "drag_item s = Some d" and "d \<in> set (page_widgets s)"
    and "0 \<le> t" and "t < int (length (page_widgets s))"
  shows "case py_index d (page_widgets s) of
           Inl e \<Rightarrow> False
         | Inr cur \<Rightarrow>
             cur < length (page_widgets s) \<and> page_widgets s ! cur = d \<and>
             (let tgt = drag_target_index (grid_cols s) (cards s (hd (page_widgets s)))
                          (int (length (page_widgets s))) x y;
                  popped = take cur (page_widgets s) @ drop (Suc cur) (page_widgets s);
                  ws' = take (nat t) popped @ d # drop (nat t) popped
              in (t = int cur \<longrightarrow>
                    drag_reorder d t (page_widgets s) = Inr None
                    \<and> (tgt = t \<longrightarrow> on_drag_motion x y s = Inr s))
               \<and> (t \<noteq> int cur \<longrightarrow>
                    drag_reorder d t (page_widgets s) = Inr (Some ws')
                    \<and> ws' ! nat t = d
                    \<and> length ws' = length (page_widgets s)
                    \<and> filter (\<lambda>c. c \<noteq> d) ws' = filter (\<lambda>c. c \<noteq> d) (page_widgets s)
                    \<and> (tgt = t \<longrightarrow>
                         on_drag_motion x y s = Inr (reflow_grid (s\<lparr>page_widgets := ws'\<rparr>)))))"
proof -
  let ?ws = "page_widgets s"
  obtain cur where c: "py_index d ?ws = Inr cur" "cur < length ?ws" "?ws ! cur = d"
    using py_index_Inr [OF assms(2)] by blast
  define ys where "ys = take cur ?ws @ drop (Suc cur) ?ws"
  define ws' where "ws' = take (nat t) ys @ d # drop (nat t) ys"
  let ?tgt = "drag_target_index (grid_cols s) (cards s (hd ?ws)) (int (length ?ws)) x y"
  have ne: "?ws \<noteq> []" using assms(2) by auto
  have ly: "Suc (length ys) = length ?ws" using c(2) by (simp add: ys_def)
  have t: "t \<le> int (length ys)" using assms(4) ly by simp
  have ins: "py_insert t d ys = ws'"
    unfolding ws'_def by (rule py_insert_props(4) [OF assms(3) t])
  have pop: "py_pop cur ?ws = Inr ys" using c(2) by (simp add: py_pop_def ys_def)
  have same: "drag_reorder d t ?ws = Inr None" if "t = int cur"
    using c(1) that by (simp add: drag_reorder_def)
  have diff: "drag_reorder d t ?ws = Inr (Some ws')" if "t \<noteq> int cur"
    using c(1) that ins pop by (simp add: drag_reorder_def)
  have p1: "ws' ! nat t = d"
    using py_insert_props(1) [OF assms(3) t, of d] unfolding ins .
  have p2: "length ws' = length ?ws"
    using py_insert_props(2) [OF assms(3) t, of d] ly unfolding ins by simp
  have fp: "filter (\<lambda>c. c \<noteq> d) ys = filter (\<lambda>c. c \<noteq> d) ?ws"
    unfolding ys_def by (rule filter_pop [OF c(2) c(3)])
  have p3: "filter (\<lambda>c. c \<noteq> d) ws' = filter (\<lambda>c. c \<noteq> d) ?ws"
    using py_insert_props(3) [OF assms(3) t, of d] fp unfolding ins by simp
  have m1: "on_drag_motion x y s = Inr s" if "t = int cur" "?tgt = t"
    using on_drag_motion_reorder [OF assms(1) ne, of x y] same that by simp
  have m2: "on_drag_motion x y s = Inr (reflow_grid (s\<lparr>page_widgets := ws'\<rparr>))"
    if "t \<noteq> int cur" "?tgt = t"
    using on_drag_motion_reorder [OF assms(1) ne, of x y] diff that by simp
  have "cur < length ?ws \<and> ?ws ! cur = d \<and>
        (t = int cur \<longrightarrow> drag_reorder d t ?ws = Inr None
            \<and> (?tgt = t \<longrightarrow> on_drag_motion x y s = Inr s)) \<and>
        (t \<noteq> int cur \<longrightarrow> drag_reorder d t ?ws = Inr (Some ws')
            \<and> ws' ! nat t = d \<and> length ws' = length ?ws
            \<and> filter (\<lambda>c. c \<noteq> d) ws' = filter (\<lambda>c. c \<noteq> d) ?ws
            \<and> (?tgt = t \<longrightarrow>
                 on_drag_motion x y s = Inr (reflow_grid (s\<lparr>page_widgets := ws'\<rparr>))))"
    using c(2) c(3) same diff p1 p2 p3 m1 m2 by blast
  then show ?thesis
    unfolding c(1) ws'_def ys_def Let_def sum.case .
qed

theorem stable_move_witness:
  "drag_reorder 10 2 [10, 11, 12, 13] = Inr (Some [11, 12, 10, 13])
   \<and> on_drag_motion 400 0 (OrganizePage_init\<lparr>page_widgets := [10, 11, 12, 13], drag_item := Some 10\<rparr>)
       = Inr (reflow_grid (OrganizePage_init\<lparr>page_widgets := [11, 12, 10, 13], drag_item := Some 10\<rparr>))
   \<and> drag_reorder 10 0 [10, 11, 12, 13] = Inr None
   \<and> on_drag_motion 100 0 (OrganizePage_init\<lparr>page_widgets := [10, 11, 12, 13], drag_item := Some 10\<rparr>)
       = Inr (OrganizePage_init\<lparr>page_widgets := [10, 11, 12, 13], drag_item := Some 10\<rparr>)"
  using stable_move [of "OrganizePage_init\<lparr>page_widgets := [10, 11, 12, 13], drag_item := Some 10\<rparr>"
                        10 2 400 0]
        stable_move [of "OrganizePage_init\<lparr>page_widgets := [10, 11, 12, 13], drag_item := Some 10\<rparr>"
                        10 0 100 0]
  by (simp add: OrganizePage_init_def PageCard_init_def drag_target_index_def cell_size_def Let_def)

text \<open>
  C7. With a list of \<open>n > 0\<close> cards and a positive column count, the target index is the
  clamped value the grid formula gives, and it is a position of the list, for every
  pointer position, negative coordinates included. With an empty list \<open>on_drag_motion\<close>
  returns at once: no exception, and the state it was given.
\<close>

theorem drag_target_safe:
  "(page_widgets s \<noteq> [] \<and> 0 < grid_cols s \<longrightarrow>
      (let C = grid_cols s;
           n = int (length (page_widgets s));
           (w_width, w_height) = cell_size (cards s (hd (page_widgets s)));
           t = drag_target_index C (cards s (hd (page_widgets s))) n x y
       in t = max 0 (min (n - 1)
                (max 0 (y div w_height) * C + max 0 (min (C - 1) (x div w_width))))
          \<and> 0 \<le> t \<and> t \<le> n - 1 \<and> nat t < length (page_widgets s)))
   \<and> (page_widgets s = [] \<longrightarrow> on_drag_motion x y s = Inr s)"
proof (intro conjI impI)
  assume a: "page_widgets s \<noteq> [] \<and> 0 < grid_cols s"
  let ?C = "grid_cols s"
  obtain w h where wh: "cell_size (cards s (hd (page_widgets s))) = (w, h)"
    by (cases "cell_size (cards s (hd (page_widgets s)))")
  define raw where "raw = max 0 (y div h) * ?C + max 0 (min (?C - 1) (x div w))"
  define n where "n = int (length (page_widgets s))"
  have n: "0 < n" using a by (simp add: n_def)
  have "0 \<le> max 0 (y div h) * ?C" using a by (simp add: mult_nonneg_nonneg)
  then have raw: "0 \<le> raw" by (simp add: raw_def)
  have t: "drag_target_index ?C (cards s (hd (page_widgets s))) n x y
             = (if raw \<ge> n then n - 1 else raw)"
    by (simp add: drag_target_index_def wh Let_def raw_def)
  have "(if raw \<ge> n then n - 1 else raw) = max 0 (min (n - 1) raw)"
    using raw n by (simp add: max_def min_def)
  moreover have "0 \<le> (if raw \<ge> n then n - 1 else raw)" using raw n by simp
  moreover have "(if raw \<ge> n then n - 1 else raw) \<le> n - 1" by simp
  moreover have "nat (if raw \<ge> n then n - 1 else raw) < length (page_widgets s)"
  proof -
    obtain L where L: "length (page_widgets s) = L" "0 < L" using a by simp
    have "nat (if raw \<ge> int L then int L - 1 else raw) < L"
    proof (cases "raw \<ge> int L")
      case True
      then show ?thesis using L(2) by simp
    next
      case False
      then show ?thesis using raw by simp
    qed
    then show ?thesis unfolding n_def L(1) .
  qed
  ultimately have "(if raw \<ge> n then n - 1 else raw) = max 0 (min (n - 1) raw)
      \<and> 0 \<le> (if raw \<ge> n then n - 1 else raw)
      \<and> (if raw \<ge> n then n - 1 else raw) \<le> n - 1
      \<and> nat (if raw \<ge> n then n - 1 else raw) < length (page_widgets s)"
    by blast
  then show "let C = grid_cols s;
           n = int (length (page_widgets s));
           (w_width, w_height) = cell_size (cards s (hd (page_widgets s)));
           t = drag_target_index C (cards s (hd (page_widgets s))) n x y
       in t = max 0 (min (n - 1)
                (max 0 (y div w_height) * C + max 0 (min (C - 1) (x div w_width))))
          \<and> 0 \<le> t \<and> t \<le> n - 1 \<and> nat t < length (page_widgets s)"
    unfolding Let_def wh prod.case t [unfolded n_def] unfolding raw_def n_def .
next
  assume "page_widgets s = []"
  then show "on_drag_motion x y s = Inr s"
    by (simp add: on_drag_motion_def split: option.splits)
qed

theorem drag_target_safe_witness:
  "drag_target_index 5 (PageCard_init 0 []) 3 (- 30) (- 5) = 0
   \<and> drag_target_index 5 (PageCard_init 0 []) 3 900 900 = 2
   \<and> on_drag_motion (- 30) (- 5) (OrganizePage_init\<lparr>drag_item := Some 10\<rparr>)
       = Inr (OrganizePage_init\<lparr>drag_item := Some 10\<rparr>)"
  using drag_target_safe [of "OrganizePage_init\<lparr>page_widgets := [10, 11, 12]\<rparr>" "- 30" "- 5"]
        drag_target_safe [of "OrganizePage_init\<lparr>page_widgets := [10, 11, 12]\<rparr>" 900 900]
        drag_target_safe [of "OrganizePage_init\<lparr>drag_item := Some 10\<rparr>" "- 30" "- 5"]
  by (simp add: OrganizePage_init_def PageCard_init_def drag_target_index_def cell_size_def Let_def)

section \<open>Saving: what is written and what is reported\<close>

lemma save_loop_ok:
  assumes "\<forall>c \<in> set ws. \<exists>n. PdfReader (source_path (cs c)) = Inr n"
    and "\<forall>src n. readers src = Some n \<longrightarrow> PdfReader src = Inr n"
  shows "save_loop pct PdfReader cs tot i ws readers writer evs =
           (evs @ concat (map (save_progress pct tot) [i..<i + length ws]),
            Inr (writer @ map (\<lambda>c. out_page_of (cs c))
                   (filter (\<lambda>c. orig_index (cs c) < pages_at_save PdfReader (source_path (cs c))) ws)))"
  using assms
proof (induction ws arbitrary: i readers writer evs)
  case Nil
  then show ?case by simp
next
  case (Cons c ws)
  obtain n where n: "PdfReader (source_path (cs c)) = Inr n"
    using Cons.prems(1) by auto
  have pn: "pages_at_save PdfReader (source_path (cs c)) = n"
    by (simp add: pages_at_save_def n)
  have rest: "\<forall>c \<in> set ws. \<exists>n. PdfReader (source_path (cs c)) = Inr n"
    using Cons.prems(1) by simp
  have upt: "[i..<i + length (c # ws)] = i # [Suc i..<Suc i + length ws]"
    by (simp add: upt_rec)
  let ?w' = "if orig_index (cs c) < n then writer @ [out_page_of (cs c)] else writer"
  show ?case
  proof (cases "readers (source_path (cs c))")
    case None
    have cons: "\<forall>src m. (readers(source_path (cs c) \<mapsto> n)) src = Some m \<longrightarrow> PdfReader src = Inr m"
      using Cons.prems(2) n by auto
    have step: "save_loop pct PdfReader cs tot i (c # ws) readers writer evs
                  = save_loop pct PdfReader cs tot (Suc i) ws (readers(source_path (cs c) \<mapsto> n))
                      ?w' (evs @ save_progress pct tot i)"
      using None n by simp
    show ?thesis
      unfolding step Cons.IH [OF rest cons] upt by (simp add: pn)
  next
    case (Some m)
    then have mn: "m = n" using Cons.prems(2) n by fastforce
    have step: "save_loop pct PdfReader cs tot i (c # ws) readers writer evs
                  = save_loop pct PdfReader cs tot (Suc i) ws readers
                      ?w' (evs @ save_progress pct tot i)"
      using Some mn by simp
    show ?thesis
      unfolding step Cons.IH [OF rest Cons.prems(2)] upt by (simp add: pn)
  qed
qed

lemma save_progress_quiet:
  "filter is_Error (save_progress pct tot i) = [] \<and> filter is_Done (save_progress pct tot i) = []"
  by (simp add: save_progress_def)

lemma save_loop_events:
  "\<exists>extra. fst (save_loop pct PdfReader cs tot i ws readers writer evs) = evs @ extra
           \<and> filter is_Error extra = [] \<and> filter is_Done extra = []"
proof (induction ws arbitrary: i readers writer evs)
  case Nil
  then show ?case by simp
next
  case (Cons c ws)
  show ?case
  proof (cases "case readers (source_path (cs c)) of
              Some n \<Rightarrow> Inr (readers, n)
            | None \<Rightarrow>
                (case PdfReader (source_path (cs c)) of
                   Inl e \<Rightarrow> Inl e
                 | Inr n \<Rightarrow> Inr (readers(source_path (cs c) \<mapsto> n), n))")
    case (Inl e)
    then show ?thesis by simp
  next
    case (Inr rn)
    obtain r' n where rn: "rn = (r', n)" by (cases rn)
    obtain extra where e: "fst (save_loop pct PdfReader cs tot (Suc i) ws r'
            (if orig_index (cs c) < n then writer @ [out_page_of (cs c)] else writer)
            (evs @ save_progress pct tot i)) = (evs @ save_progress pct tot i) @ extra"
        "filter is_Error extra = []" "filter is_Done extra = []"
      using Cons.IH by blast
    have "fst (save_loop pct PdfReader cs tot i (c # ws) readers writer evs)
            = evs @ (save_progress pct tot i @ extra)"
      using Inr rn e(1) by simp
    moreover have "filter is_Error (save_progress pct tot i @ extra) = []"
      using e(2) save_progress_quiet by simp
    moreover have "filter is_Done (save_progress pct tot i @ extra) = []"
      using e(3) save_progress_quiet by simp
    ultimately show ?thesis by blast
  qed
qed

lemma save_job_events:
  "(\<exists>extra e. fst (save_job pct PdfReader write_out out s) = extra @ [Error e]
        \<and> filter is_Error extra = [] \<and> filter is_Done extra = []
        \<and> snd (save_job pct PdfReader write_out out s) = Inr None)
   \<or> (\<exists>extra m w. fst (save_job pct PdfReader write_out out s) = extra @ [Status m, Done m]
        \<and> filter is_Error extra = [] \<and> filter is_Done extra = []
        \<and> snd (save_job pct PdfReader write_out out s) = Inr (Some w))"
proof -
  let ?r = "save_loop pct PdfReader (cards s) (length (page_widgets s)) 0 (page_widgets s)
             Map.empty [] []"
  obtain extra where e: "fst ?r = [] @ extra" "filter is_Error extra = []" "filter is_Done extra = []"
    using save_loop_events by blast
  obtain evs res where r: "?r = (evs, res)" by (cases ?r)
  have evs: "evs = extra" using e(1) r by simp
  show ?thesis
  proof (cases res)
    case (Inl ex)
    then have "fst (save_job pct PdfReader write_out out s) = extra @ [Error (str_of ex)]"
      and "snd (save_job pct PdfReader write_out out s) = Inr None"
      using r evs by (simp_all add: save_job_def)
    then show ?thesis using e(2,3) by blast
  next
    case (Inr w)
    show ?thesis
    proof (cases "write_out out")
      case None
      then have "fst (save_job pct PdfReader write_out out s)
                   = extra @ [Status (''Saved organized PDF to: '' @ out),
                              Done (''Saved organized PDF to: '' @ out)]"
        and "snd (save_job pct PdfReader write_out out s) = Inr (Some w)"
        using r evs Inr by (simp_all add: save_job_def)
      then show ?thesis using e(2,3) by blast
    next
      case (Some ex)
      then have "fst (save_job pct PdfReader write_out out s) = extra @ [Error (str_of ex)]"
        and "snd (save_job pct PdfReader write_out out s) = Inr None"
        using r evs Inr by (simp_all add: save_job_def)
      then show ?thesis using e(2,3) by blast
    qed
  qed
qed


lemma save_loop_fails:
  assumes "\<exists>c \<in> set ws. isl (PdfReader (source_path (cs c)))"
    and "\<forall>src n. readers src = Some n \<longrightarrow> PdfReader src = Inr n"
  shows "isl (snd (save_loop pct PdfReader cs tot i ws readers writer evs))"
  using assms
proof (induction ws arbitrary: i readers writer evs)
  case Nil
  then show ?case by simp
next
  case (Cons c ws)
  show ?case
  proof (cases "PdfReader (source_path (cs c))")
    case (Inl e)
    then have "readers (source_path (cs c)) = None"
      using Cons.prems(2) by (cases "readers (source_path (cs c))") auto
    then show ?thesis using Inl by simp
  next
    case (Inr n)
    then have rest: "\<exists>c \<in> set ws. isl (PdfReader (source_path (cs c)))"
      using Cons.prems(1) by auto
    have cons: "\<forall>src m. (readers(source_path (cs c) \<mapsto> n)) src = Some m \<longrightarrow> PdfReader src = Inr m"
      using Cons.prems(2) Inr by auto
    let ?w' = "if orig_index (cs c) < n then writer @ [out_page_of (cs c)] else writer"
    show ?thesis
    proof (cases "readers (source_path (cs c))")
      case None
      have step: "save_loop pct PdfReader cs tot i (c # ws) readers writer evs
                    = save_loop pct PdfReader cs tot (Suc i) ws
                        (readers(source_path (cs c) \<mapsto> n)) ?w' (evs @ save_progress pct tot i)"
        using None Inr by simp
      show ?thesis unfolding step by (rule Cons.IH [OF rest cons])
    next
      case (Some m)
      then have mn: "m = n" using Cons.prems(2) Inr by fastforce
      have step: "save_loop pct PdfReader cs tot i (c # ws) readers writer evs
                    = save_loop pct PdfReader cs tot (Suc i) ws readers ?w'
                        (evs @ save_progress pct tot i)"
        using Some mn by simp
      show ?thesis unfolding step by (rule Cons.IH [OF rest Cons.prems(2)])
    qed
  qed
qed

lemma save_job_ok:
  assumes "\<forall>c \<in> set (page_widgets s). \<exists>n. PdfReader (source_path (cards s c)) = Inr n"
    and "write_out out = None"
  shows "save_job pct PdfReader write_out out s =
           (concat (map (save_progress pct (length (page_widgets s))) [0..<length (page_widgets s)])
              @ [Status (''Saved organized PDF to: '' @ out), Done (''Saved organized PDF to: '' @ out)],
            Inr (Some (map (\<lambda>c. out_page_of (cards s c))
                   (filter (\<lambda>c. orig_index (cards s c)
                                   < pages_at_save PdfReader (source_path (cards s c)))
                      (page_widgets s)))))"
proof -
  have "save_loop pct PdfReader (cards s) (length (page_widgets s)) 0 (page_widgets s)
             Map.empty [] [] =
        ([] @ concat (map (save_progress pct (length (page_widgets s))) [0..<0 + length (page_widgets s)]),
         Inr ([] @ map (\<lambda>c. out_page_of (cards s c))
                   (filter (\<lambda>c. orig_index (cards s c)
                                   < pages_at_save PdfReader (source_path (cards s c)))
                      (page_widgets s))))"
    by (rule save_loop_ok [OF assms(1)]) simp
  then show ?thesis using assms(2) by (simp add: save_job_def)
qed

lemma concat_save_progress_quiet:
  "filter is_Error (concat (map (save_progress pct tot) ks)) = []
   \<and> filter is_Done (concat (map (save_progress pct tot) ks)) = []"
  by (induction ks) (simp_all add: save_progress_def)

text \<open>
  C10. When every source of the working list can be read at save time and the output can
  be written, \<open>save_pdf\<close> writes exactly the pages of the cards whose original index is
  below the page count of their source as read at save time, in list order. A card whose
  index is not below that count contributes no page, so the file may have fewer pages
  than the list has cards. The queue receives progress and status events and then one
  \<open>Done\<close>; no \<open>Error\<close> is put.
\<close>

theorem save_omits_stale_pages:
  assumes "page_widgets s \<noteq> []" and "out \<noteq> []"
    and "\<forall>c \<in> set (page_widgets s). \<exists>n. PdfReader (source_path (cards s c)) = Inr n"
    and "write_out out = None"
  shows "case save_pdf pct PdfReader write_out out s of
           (s', None) \<Rightarrow> False
         | (s', Some written) \<Rightarrow>
             written = map (\<lambda>c. out_page_of (cards s c))
                         (filter (\<lambda>c. orig_index (cards s c)
                                         < pages_at_save PdfReader (source_path (cards s c)))
                            (page_widgets s))
             \<and> (\<forall>c \<in> set (page_widgets s).
                    pages_at_save PdfReader (source_path (cards s c)) \<le> orig_index (cards s c)
                    \<longrightarrow> out_page_of (cards s c) \<notin> set written)
             \<and> length written \<le> length (page_widgets s)
             \<and> ((\<exists>c \<in> set (page_widgets s).
                     pages_at_save PdfReader (source_path (cards s c)) \<le> orig_index (cards s c))
                  \<longrightarrow> length written < length (page_widgets s))
             \<and> (\<exists>evs m. progress_queue (app s') = progress_queue (app s) @ evs @ [Done m]
                    \<and> filter is_Error evs = [] \<and> filter is_Done evs = [])"
proof -
  let ?valid = "\<lambda>c. orig_index (cards s c) < pages_at_save PdfReader (source_path (cards s c))"
  let ?written = "map (\<lambda>c. out_page_of (cards s c)) (filter ?valid (page_widgets s))"
  let ?m = "''Saved organized PDF to: '' @ out"
  let ?evs = "concat (map (save_progress pct (length (page_widgets s))) [0..<length (page_widgets s)])
                @ [Status ?m]"
  let ?s' = "s\<lparr>app := run_worker (save_job pct PdfReader write_out out s) (app s)\<rparr>"
  have job: "save_job pct PdfReader write_out out s = (?evs @ [Done ?m], Inr (Some ?written))"
    using save_job_ok [of s PdfReader write_out out pct] assms(3) assms(4) by simp
  have sp: "save_pdf pct PdfReader write_out out s = (?s', Some ?written)"
    using assms(1,2) job by (simp add: save_pdf_def Let_def)
  have q: "progress_queue (app ?s') = progress_queue (app s) @ ?evs @ [Done ?m]"
    using job by (simp add: run_worker_def WorkerThread_run_def Let_def)
  have quiet: "filter is_Error ?evs = [] \<and> filter is_Done ?evs = []"
    using concat_save_progress_quiet [of pct "length (page_widgets s)" "[0..<length (page_widgets s)]"]
    by simp
  have stale: "out_page_of (cards s c) \<notin> set ?written"
    if "pages_at_save PdfReader (source_path (cards s c)) \<le> orig_index (cards s c)" for c
  proof
    assume "out_page_of (cards s c) \<in> set ?written"
    then obtain c' where c': "?valid c'" "out_page_of (cards s c') = out_page_of (cards s c)"
      by auto
    then have "source_path (cards s c') = source_path (cards s c)"
      and "orig_index (cards s c') = orig_index (cards s c)"
      by (simp_all add: out_page_of_def)
    then show False using c'(1) that by simp
  qed
  have len: "length ?written \<le> length (page_widgets s)" by simp
  have less: "length ?written < length (page_widgets s)"
    if "\<exists>c \<in> set (page_widgets s).
          pages_at_save PdfReader (source_path (cards s c)) \<le> orig_index (cards s c)"
  proof -
    from that obtain c where "c \<in> set (page_widgets s)" "\<not> ?valid c" by force
    then show ?thesis using length_filter_less [of c "page_widgets s" ?valid] by simp
  qed
  have "?written = ?written
      \<and> (\<forall>c \<in> set (page_widgets s).
            pages_at_save PdfReader (source_path (cards s c)) \<le> orig_index (cards s c)
            \<longrightarrow> out_page_of (cards s c) \<notin> set ?written)
      \<and> length ?written \<le> length (page_widgets s)
      \<and> ((\<exists>c \<in> set (page_widgets s).
             pages_at_save PdfReader (source_path (cards s c)) \<le> orig_index (cards s c))
          \<longrightarrow> length ?written < length (page_widgets s))
      \<and> (\<exists>evs m. progress_queue (app ?s') = progress_queue (app s) @ evs @ [Done m]
            \<and> filter is_Error evs = [] \<and> filter is_Done evs = [])"
    using stale len less q quiet by blast
  then show ?thesis unfolding sp prod.case option.case .
qed

theorem save_omits_stale_pages_witness:
  "save_pdf (\<lambda>i n. 0) (\<lambda>p. Inr 2) (\<lambda>p. None) ''out.pdf''
     (OrganizePage_init\<lparr>page_widgets := [0, 1, 2],
        cards := (\<lambda>r. PageCard_init r ''a.pdf'')\<rparr>)
   = (OrganizePage_init\<lparr>page_widgets := [0, 1, 2],
        cards := (\<lambda>r. PageCard_init r ''a.pdf''),
        app := MainApp_init\<lparr>status := ''Working...'', threads_started := 1,
                 progress_queue :=
                   [Progress 0, Status ''Saving page 1/3'',
                    Progress 0, Status ''Saving page 2/3'',
                    Progress 0, Status ''Saving page 3/3'',
                    Status ''Saved organized PDF to: out.pdf'',
                    Done ''Saved organized PDF to: out.pdf'']\<rparr>\<rparr>,
      Some [(''a.pdf'', 0, 0), (''a.pdf'', 1, 0)])"
  using save_omits_stale_pages [of "OrganizePage_init\<lparr>page_widgets := [0, 1, 2],
        cards := (\<lambda>r. PageCard_init r ''a.pdf'')\<rparr>" "''out.pdf''" "\<lambda>p. Inr 2" "\<lambda>p. None" "\<lambda>i n. 0"]
  by (simp add: save_pdf_def save_job_def OrganizePage_init_def MainApp_init_def PageCard_init_def
        out_page_of_def save_progress_def run_worker_def WorkerThread_run_def Let_def
        str_nat.simps digit_char_def)

section \<open>The organizer from load to save\<close>

lemma upt3: "[0..<3] = [0, 1, 2]" and upt2: "[0..<2] = [0, 1]"
  by code_simp+

lemma end_to_end_state:
  assumes "src1 \<noteq> []" and "src2 \<noteq> []"
  shows "page_widgets (remove_page_card
            (hd (page_widgets (add_pdf_append pct2 (Inr 2) (\<lambda>i. None) src2
                    (load_pdf_clear pct1 (Inr 3) (\<lambda>i. None) src1 OrganizePage_init))))
            (add_pdf_append pct2 (Inr 2) (\<lambda>i. None) src2
               (load_pdf_clear pct1 (Inr 3) (\<lambda>i. None) src1 OrganizePage_init)))
           = [1, 2, 3, 4]
       \<and> map (cards (remove_page_card
            (hd (page_widgets (add_pdf_append pct2 (Inr 2) (\<lambda>i. None) src2
                    (load_pdf_clear pct1 (Inr 3) (\<lambda>i. None) src1 OrganizePage_init))))
            (add_pdf_append pct2 (Inr 2) (\<lambda>i. None) src2
               (load_pdf_clear pct1 (Inr 3) (\<lambda>i. None) src1 OrganizePage_init)))) [1, 2, 3, 4]
           = [PageCard_init 1 src1, PageCard_init 2 src1, PageCard_init 0 src2, PageCard_init 1 src2]"
  using assms
  by (simp add: load_pdf_clear_def add_pdf_append_def run_render_def render_worker_def
      append_to_grid_def remove_page_card_def deselect_all_def destroy_def put_def
      reflow_grid_def grid_call_def OrganizePage_init_def Let_def upt3 upt2)

lemma save_pdf_all_valid:
  assumes "page_widgets s \<noteq> []" and "out \<noteq> []"
    and "\<forall>c \<in> set (page_widgets s).
           \<exists>n. PdfReader (source_path (cards s c)) = Inr n \<and> orig_index (cards s c) < n"
    and "write_out out = None"
  shows "snd (save_pdf pct PdfReader write_out out s)
           = Some (map (\<lambda>c. out_page_of (cards s c)) (page_widgets s))"
proof -
  have r: "\<forall>c \<in> set (page_widgets s). \<exists>n. PdfReader (source_path (cards s c)) = Inr n"
    using assms(3) by blast
  have v: "\<forall>c \<in> set (page_widgets s).
             orig_index (cards s c) < pages_at_save PdfReader (source_path (cards s c))"
    using assms(3) by (auto simp: pages_at_save_def)
  have f: "filter (\<lambda>c. orig_index (cards s c) < pages_at_save PdfReader (source_path (cards s c)))
             (page_widgets s) = page_widgets s"
    using v by (simp add: filter_id_conv)
  have "snd (save_job pct PdfReader write_out out s)
          = Inr (Some (map (\<lambda>c. out_page_of (cards s c)) (page_widgets s)))"
    using save_job_ok [of s PdfReader write_out out pct] r assms(4) f by simp
  then show ?thesis using assms(1,2) by (simp add: save_pdf_def Let_def)
qed

lemma organizer_end_to_end:
  assumes "src1 \<noteq> []" and "src2 \<noteq> []" and "out \<noteq> []"
    and "PdfReader src1 = Inr 3" and "PdfReader src2 = Inr 2" and "write_out out = None"
  shows "(let s1 = load_pdf_clear pct1 (Inr 3) (\<lambda>i. None) src1 OrganizePage_init;
              s2 = add_pdf_append pct2 (Inr 2) (\<lambda>i. None) src2 s1;
              s3 = remove_page_card (hd (page_widgets s2)) s2
          in snd (save_pdf pct PdfReader write_out out s3)
               = Some [(src1, 1, 0), (src1, 2, 0), (src2, 0, 0), (src2, 1, 0)])"
proof -
  define s3 where "s3 = remove_page_card
            (hd (page_widgets (add_pdf_append pct2 (Inr 2) (\<lambda>i. None) src2
                    (load_pdf_clear pct1 (Inr 3) (\<lambda>i. None) src1 OrganizePage_init))))
            (add_pdf_append pct2 (Inr 2) (\<lambda>i. None) src2
               (load_pdf_clear pct1 (Inr 3) (\<lambda>i. None) src1 OrganizePage_init))"
  have st: "page_widgets s3 = [1, 2, 3, 4]"
    "map (cards s3) [1, 2, 3, 4]
       = [PageCard_init 1 src1, PageCard_init 2 src1, PageCard_init 0 src2, PageCard_init 1 src2]"
    using end_to_end_state [OF assms(1,2), of pct2 pct1] unfolding s3_def by blast+
  have ne: "page_widgets s3 \<noteq> []" using st(1) by simp
  have ok: "\<forall>c \<in> set (page_widgets s3).
           \<exists>n. PdfReader (source_path (cards s3 c)) = Inr n \<and> orig_index (cards s3 c) < n"
    using st assms(4,5) by (simp add: PageCard_init_def)
  have "snd (save_pdf pct PdfReader write_out out s3)
          = Some (map (\<lambda>c. out_page_of (cards s3 c)) (page_widgets s3))"
    using save_pdf_all_valid [of s3 out PdfReader write_out pct] ne assms(3) ok assms(6)
    by blast
  also have "\<dots> = Some [(src1, 1, 0), (src1, 2, 0), (src2, 0, 0), (src2, 1, 0)]"
    using st by (simp add: PageCard_init_def out_page_of_def)
  finally show ?thesis unfolding s3_def Let_def .
qed

text \<open>
  C1. Start from \<open>OrganizePage_init\<close>, load a source of 3 pages, append a source of 2
  pages, remove the first card, and save, the two sources still having 3 and 2 pages and
  the output being writable: the file written holds pages 2 and 3 of the first source and
  then pages 1 and 2 of the second (original indices 1, 2 and 0, 1), none rotated.
  In general, when every card's index is below the page count of its readable source,
  \<open>save_pdf\<close> writes one page per card of the working list, in list order; and whenever
  the sources can be read, the pages written are those of the cards with such an index,
  in list order.
\<close>

theorem organizer_save_order:
  "(src1 \<noteq> [] \<and> src2 \<noteq> [] \<and> out \<noteq> []
      \<and> PdfReader src1 = Inr 3 \<and> PdfReader src2 = Inr 2 \<and> write_out out = None \<longrightarrow>
      (let s1 = load_pdf_clear pct1 (Inr 3) (\<lambda>i. None) src1 OrganizePage_init;
           s2 = add_pdf_append pct2 (Inr 2) (\<lambda>i. None) src2 s1;
           s3 = remove_page_card (hd (page_widgets s2)) s2
       in snd (save_pdf pct PdfReader write_out out s3)
            = Some [(src1, 1, 0), (src1, 2, 0), (src2, 0, 0), (src2, 1, 0)]))
   \<and> (page_widgets s \<noteq> [] \<and> out \<noteq> []
      \<and> (\<forall>c \<in> set (page_widgets s).
            \<exists>n. PdfReader (source_path (cards s c)) = Inr n \<and> orig_index (cards s c) < n)
      \<and> write_out out = None \<longrightarrow>
      snd (save_pdf pct PdfReader write_out out s)
        = Some (map (\<lambda>c. out_page_of (cards s c)) (page_widgets s)))
   \<and> (page_widgets s \<noteq> [] \<and> out \<noteq> []
      \<and> (\<forall>c \<in> set (page_widgets s). \<exists>n. PdfReader (source_path (cards s c)) = Inr n)
      \<and> write_out out = None \<longrightarrow>
      snd (save_pdf pct PdfReader write_out out s)
        = Some (map (\<lambda>c. out_page_of (cards s c))
                  (filter (\<lambda>c. orig_index (cards s c)
                                  < pages_at_save PdfReader (source_path (cards s c)))
                     (page_widgets s))))"
proof -
  have sub: "snd (save_pdf pct PdfReader write_out out s)
        = Some (map (\<lambda>c. out_page_of (cards s c))
                  (filter (\<lambda>c. orig_index (cards s c)
                                  < pages_at_save PdfReader (source_path (cards s c)))
                     (page_widgets s)))"
    if h: "page_widgets s \<noteq> [] \<and> out \<noteq> []
      \<and> (\<forall>c \<in> set (page_widgets s). \<exists>n. PdfReader (source_path (cards s c)) = Inr n)
      \<and> write_out out = None"
    using save_job_ok [of s PdfReader write_out out pct] h by (simp add: save_pdf_def Let_def)
  show ?thesis
    using organizer_end_to_end [of src1 src2 out PdfReader write_out pct1 pct2 pct]
          save_pdf_all_valid [of s out PdfReader write_out pct] sub
    by blast
qed

theorem organizer_save_order_witness:
  "(let s1 = load_pdf_clear (\<lambda>i n. 0) (Inr 3) (\<lambda>i. None) ''src1.pdf'' OrganizePage_init;
        s2 = add_pdf_append (\<lambda>i n. 0) (Inr 2) (\<lambda>i. None) ''src2.pdf'' s1;
        s3 = remove_page_card (hd (page_widgets s2)) s2
    in snd (save_pdf (\<lambda>i n. 0)
                 (\<lambda>p. if p = ''src1.pdf'' then Inr 3 else if p = ''src2.pdf'' then Inr 2
                       else Inl (OSError ''No such file'')) (\<lambda>p. None) ''out.pdf'' s3)
          = Some [(''src1.pdf'', 1, 0), (''src1.pdf'', 2, 0), (''src2.pdf'', 0, 0), (''src2.pdf'', 1, 0)])
   \<and> snd (save_pdf (\<lambda>i n. 0) (\<lambda>p. Inr 2) (\<lambda>p. None) ''out.pdf''
             (OrganizePage_init\<lparr>page_widgets := [7, 5],
                cards := (\<lambda>r. (PageCard_init (r mod 2) ''a.pdf'')\<lparr>rotation := 450\<rparr>)\<rparr>))
       = Some [(''a.pdf'', 1, 90), (''a.pdf'', 1, 90)]"
  using organizer_save_order [of "''src1.pdf''" "''src2.pdf''" "''out.pdf''"
          "\<lambda>p. if p = ''src1.pdf'' then Inr 3 else if p = ''src2.pdf'' then Inr 2
                       else Inl (OSError ''No such file'')" "\<lambda>p. None" "\<lambda>i n. 0" "\<lambda>i n. 0" "\<lambda>i n. 0"
          "OrganizePage_init"]
     organizer_save_order [of "''src1.pdf''" "''src2.pdf''" "''out.pdf''"
          "\<lambda>p. Inr 2" "\<lambda>p. None" "\<lambda>i n. 0" "\<lambda>i n. 0" "\<lambda>i n. 0"
          "OrganizePage_init\<lparr>page_widgets := [7, 5],
                cards := (\<lambda>r. (PageCard_init (r mod 2) ''a.pdf'')\<lparr>rotation := 450\<rparr>)\<rparr>"]
  by (simp add: OrganizePage_init_def PageCard_init_def out_page_of_def)

section \<open>Rotation\<close>

lemma rotate_cw_4: "rotation ((rotate_cw ^^ 4) c) = rotation c + 360"
  by (simp add: rotate_cw_def eval_nat_numeral)

text \<open>
  C5, as the code has it. \<open>rotate_cw\<close> adds 90 to the stored rotation and stores the sum
  as it is: four rotations add 360, so the stored value is congruent to the old one
  modulo 360, and a new card rotated four times stores 360. The reduction happens at save
  time: the angle applied to a written page is the stored rotation modulo 360, a value
  from 0 to 359.
\<close>

theorem rotation_accumulates:
  "rotation (rotate_cw c) = rotation c + 90
   \<and> cards (rotate_card r s) r = rotate_cw (cards s r)
   \<and> rotation ((rotate_cw ^^ 4) c) = rotation c + 360
   \<and> rotation ((rotate_cw ^^ 4) c) mod 360 = rotation c mod 360
   \<and> rotation ((rotate_cw ^^ 4) (PageCard_init i p)) = 360
   \<and> rotation ((rotate_cw ^^ 4) (PageCard_init i p)) mod 360 = 0
   \<and> snd (snd (out_page_of c)) = rotation c mod 360
   \<and> 0 \<le> snd (snd (out_page_of c)) \<and> snd (snd (out_page_of c)) < 360
   \<and> (page_widgets s \<noteq> [] \<and> out \<noteq> []
        \<and> (\<forall>c \<in> set (page_widgets s). \<exists>n. PdfReader (source_path (cards s c)) = Inr n)
        \<and> write_out out = None \<longrightarrow>
        (case snd (save_pdf pct PdfReader write_out out s) of
           None \<Rightarrow> False
         | Some written \<Rightarrow>
             map (\<lambda>pg. snd (snd pg)) written
               = map (\<lambda>c. rotation (cards s c) mod 360)
                   (filter (\<lambda>c. orig_index (cards s c)
                                   < pages_at_save PdfReader (source_path (cards s c)))
                      (page_widgets s))))"
proof -
  have save: "case snd (save_pdf pct PdfReader write_out out s) of
           None \<Rightarrow> False
         | Some written \<Rightarrow>
             map (\<lambda>pg. snd (snd pg)) written
               = map (\<lambda>c. rotation (cards s c) mod 360)
                   (filter (\<lambda>c. orig_index (cards s c)
                                   < pages_at_save PdfReader (source_path (cards s c)))
                      (page_widgets s))"
    if h: "page_widgets s \<noteq> [] \<and> out \<noteq> []
        \<and> (\<forall>c \<in> set (page_widgets s). \<exists>n. PdfReader (source_path (cards s c)) = Inr n)
        \<and> write_out out = None"
  proof -
    have "snd (save_job pct PdfReader write_out out s)
            = Inr (Some (map (\<lambda>c. out_page_of (cards s c))
                   (filter (\<lambda>c. orig_index (cards s c)
                                   < pages_at_save PdfReader (source_path (cards s c)))
                      (page_widgets s))))"
      using save_job_ok [of s PdfReader write_out out pct] h by simp
    then have "snd (save_pdf pct PdfReader write_out out s)
            = Some (map (\<lambda>c. out_page_of (cards s c))
                   (filter (\<lambda>c. orig_index (cards s c)
                                   < pages_at_save PdfReader (source_path (cards s c)))
                      (page_widgets s)))"
      using h by (simp add: save_pdf_def Let_def)
    then show ?thesis by (simp add: out_page_of_def comp_def)
  qed
  have basic: "rotation (rotate_cw c) = rotation c + 90"
    "cards (rotate_card r s) r = rotate_cw (cards s r)"
    "snd (snd (out_page_of c)) = rotation c mod 360"
    by (simp_all add: rotate_cw_def rotate_card_def out_page_of_def)
  have four: "rotation ((rotate_cw ^^ 4) c) mod 360 = rotation c mod 360"
    "rotation ((rotate_cw ^^ 4) (PageCard_init i p)) = 360"
    "rotation ((rotate_cw ^^ 4) (PageCard_init i p)) mod 360 = 0"
    unfolding rotate_cw_4 by (simp_all add: PageCard_init_def)
  have range: "0 \<le> snd (snd (out_page_of c))" "snd (snd (out_page_of c)) < 360"
    by (simp_all add: out_page_of_def)
  show ?thesis
    using basic four range rotate_cw_4 [of c] save by blast
qed

theorem rotation_accumulates_witness:
  "snd (save_pdf (\<lambda>i n. 0) (\<lambda>p. Inr 2) (\<lambda>p. None) ''out.pdf''
             (rotate_card 7 (rotate_card 7 (rotate_card 7 (rotate_card 7 (rotate_card 7
                (OrganizePage_init\<lparr>page_widgets := [7, 5],
                   cards := (\<lambda>r. PageCard_init (r mod 2) ''a.pdf'')\<rparr>)))))))
       = Some [(''a.pdf'', 1, 90), (''a.pdf'', 1, 0)]
   \<and> rotation (cards (rotate_card 7 (rotate_card 7 (rotate_card 7 (rotate_card 7 (rotate_card 7
                (OrganizePage_init\<lparr>page_widgets := [7, 5],
                   cards := (\<lambda>r. PageCard_init (r mod 2) ''a.pdf'')\<rparr>)))))) 7) = 450"
  using rotation_accumulates [of "PageCard_init 1 ''a.pdf''" 7
          "rotate_card 7 (rotate_card 7 (rotate_card 7 (rotate_card 7 (rotate_card 7
                (OrganizePage_init\<lparr>page_widgets := [7, 5],
                   cards := (\<lambda>r. PageCard_init (r mod 2) ''a.pdf'')\<rparr>)))))"
          0 "''a.pdf''" "''out.pdf''" "\<lambda>p. Inr 2" "\<lambda>p. None" "\<lambda>i n. 0"]
  by (simp add: OrganizePage_init_def PageCard_init_def out_page_of_def rotate_card_def
        rotate_cw_def save_pdf_def save_job_def Let_def)

text \<open>
  The stored rotation is not reduced modulo 360: after the fourth \<open>rotate_cw\<close> of a new
  card it is 360, where storing modulo 360 would give 0.
\<close>

theorem rotation_stored_mod_360_counterexample:
  "rotation (rotate_cw (rotate_cw (rotate_cw (rotate_cw (PageCard_init 0 ''a.pdf'')))))
     \<noteq> (rotation (rotate_cw (rotate_cw (rotate_cw (PageCard_init 0 ''a.pdf'')))) + 90) mod 360
   \<and> rotation (rotate_cw (rotate_cw (rotate_cw (rotate_cw (PageCard_init 0 ''a.pdf''))))) = 360"
  by (simp add: rotate_cw_def PageCard_init_def)

section \<open>Failures of background jobs\<close>

lemma save_job_failure:
  assumes "(\<exists>c \<in> set (page_widgets s). isl (PdfReader (source_path (cards s c))))
           \<or> write_out out \<noteq> None"
  shows "snd (save_job pct PdfReader write_out out s) = Inr None"
proof -
  let ?r = "save_loop pct PdfReader (cards s) (length (page_widgets s)) 0 (page_widgets s)
             Map.empty [] []"
  obtain evs res where r: "?r = (evs, res)" by (cases ?r)
  show ?thesis
  proof (cases res)
    case (Inl e)
    then show ?thesis using r by (simp add: save_job_def)
  next
    case (Inr w)
    have "\<not> (\<exists>c \<in> set (page_widgets s). isl (PdfReader (source_path (cards s c))))"
    proof
      assume "\<exists>c \<in> set (page_widgets s). isl (PdfReader (source_path (cards s c)))"
      then have "isl (snd ?r)" by (rule save_loop_fails) simp
      then show False using r Inr by simp
    qed
    then have "write_out out \<noteq> None" using assms by blast
    then show ?thesis using r Inr by (auto simp: save_job_def)
  qed
qed

lemma save_job_never_raises: "\<exists>v. snd (save_job pct PdfReader write_out out s) = Inr v"
  using save_job_events [of pct PdfReader write_out out s] by auto

lemma save_job_failed_events:
  assumes "snd (save_job pct PdfReader write_out out s) = Inr None"
  shows "length (filter is_Error (fst (save_job pct PdfReader write_out out s))) = 1
         \<and> filter is_Done (fst (save_job pct PdfReader write_out out s)) = []"
proof -
  from save_job_events [of pct PdfReader write_out out s] assms
  obtain extra e where "fst (save_job pct PdfReader write_out out s) = extra @ [Error e]"
    "filter is_Error extra = []" "filter is_Done extra = []"
    by auto
  then show ?thesis by simp
qed

lemma run_worker_queue:
  "progress_queue (run_worker (evs, res) a)
     = progress_queue a @ evs @ (case res of Inl e \<Rightarrow> [Error (str_of e)] | Inr v \<Rightarrow> [])"
  by (cases res) (simp_all add: run_worker_def WorkerThread_run_def Let_def)

text \<open>
  C8. A target that raises after putting the events \<open>evs\<close> does not make \<open>run\<close> raise:
  the worker puts one \<open>Error\<close> event carrying \<open>str(e)\<close> after them, on the queue
  \<open>run_worker\<close> gave it. If the target itself put no \<open>Error\<close> and no \<open>Done\<close>, the job has
  put exactly one \<open>Error\<close> and no \<open>Done\<close>. The save job catches its exceptions itself:
  it never raises, it fails when a source cannot be read or the output cannot be
  written, and a failing save job has put exactly one \<open>Error\<close> and no \<open>Done\<close>.
\<close>

theorem job_failure_channel:
  "WorkerThread_run True (evs, Inl e) q = (q @ evs @ [Error (str_of e)], None)
   \<and> progress_queue (run_worker (evs, Inl e) a) = progress_queue a @ evs @ [Error (str_of e)]
   \<and> (filter is_Error evs = [] \<and> filter is_Done evs = [] \<longrightarrow>
        length (filter is_Error (evs @ [Error (str_of e)])) = 1
        \<and> filter is_Done (evs @ [Error (str_of e)]) = [])
   \<and> (let job = save_job pct PdfReader write_out out s
      in (\<exists>v. snd job = Inr v)
       \<and> progress_queue (run_worker job a) = progress_queue a @ fst job
       \<and> ((\<exists>c \<in> set (page_widgets s). isl (PdfReader (source_path (cards s c))))
            \<or> write_out out \<noteq> None \<longrightarrow> snd job = Inr None)
       \<and> (snd job = Inr None \<longrightarrow>
            length (filter is_Error (fst job)) = 1 \<and> filter is_Done (fst job) = []))"
proof -
  let ?job = "save_job pct PdfReader write_out out s"
  have w: "WorkerThread_run True (evs, Inl e) q = (q @ evs @ [Error (str_of e)], None)"
    by (simp add: WorkerThread_run_def)
  have rw: "progress_queue (run_worker (evs, Inl e) a) = progress_queue a @ evs @ [Error (str_of e)]"
    using run_worker_queue [of evs "Inl e" a] by simp
  have one: "length (filter is_Error (evs @ [Error (str_of e)])) = 1
             \<and> filter is_Done (evs @ [Error (str_of e)]) = []"
    if "filter is_Error evs = [] \<and> filter is_Done evs = []"
    using that by simp
  obtain v where v: "snd ?job = Inr v" using save_job_never_raises by blast
  have q: "progress_queue (run_worker ?job a) = progress_queue a @ fst ?job"
  proof -
    have "?job = (fst ?job, Inr v)" using v by (simp add: prod_eq_iff)
    then have "progress_queue (run_worker ?job a)
                 = progress_queue (run_worker (fst ?job, Inr v :: py_exception + out_page list option) a)"
      by simp
    then show ?thesis using run_worker_queue [of "fst ?job" "Inr v" a] by simp
  qed
  have f: "snd ?job = Inr None"
    if "(\<exists>c \<in> set (page_widgets s). isl (PdfReader (source_path (cards s c))))
            \<or> write_out out \<noteq> None"
    using save_job_failure [of s PdfReader write_out out pct] that by blast
  have g: "length (filter is_Error (fst ?job)) = 1 \<and> filter is_Done (fst ?job) = []"
    if "snd ?job = Inr None"
    using save_job_failed_events [of pct PdfReader write_out out s] that by blast
  show ?thesis
    unfolding Let_def using w rw one v q f g by blast
qed

theorem job_failure_channel_witness:
  "save_job (\<lambda>i n. 0) (\<lambda>p. if p = ''a.pdf'' then Inr 2 else Inl (OSError ''No such file: b.pdf''))
      (\<lambda>p. None) ''out.pdf''
      (OrganizePage_init\<lparr>page_widgets := [0, 1],
         cards := (\<lambda>r. PageCard_init 0 (if r = 0 then ''a.pdf'' else ''b.pdf''))\<rparr>)
     = ([Progress 0, Status ''Saving page 1/2'', Error ''No such file: b.pdf''], Inr None)
   \<and> save_job (\<lambda>i n. 0) (\<lambda>p. Inr 2) (\<lambda>p. Some (OSError ''Permission denied'')) ''out.pdf''
      (OrganizePage_init\<lparr>page_widgets := [0], cards := (\<lambda>r. PageCard_init 0 ''a.pdf'')\<rparr>)
     = ([Progress 0, Status ''Saving page 1/1'', Error ''Permission denied''], Inr None)
   \<and> WorkerThread_run True
        ([Progress 0, Status ''Writing split file 1/1: a_1.pdf''],
         Inl (OSError ''Permission denied'') :: py_exception + unit) []
     = ([Progress 0, Status ''Writing split file 1/1: a_1.pdf'', Error ''Permission denied''], None)"
  using job_failure_channel [of "[Progress 0, Status ''Writing split file 1/1: a_1.pdf'']"
          "OSError ''Permission denied''" "[]" MainApp_init "\<lambda>i n. 0"
          "\<lambda>p. if p = ''a.pdf'' then Inr 2 else Inl (OSError ''No such file: b.pdf'')"
          "\<lambda>p. None" "''out.pdf''"
          "OrganizePage_init\<lparr>page_widgets := [0, 1],
             cards := (\<lambda>r. PageCard_init 0 (if r = 0 then ''a.pdf'' else ''b.pdf''))\<rparr>"]
        job_failure_channel [of "[]" "OSError ''x''" "[]" MainApp_init "\<lambda>i n. 0" "\<lambda>p. Inr 2"
          "\<lambda>p. Some (OSError ''Permission denied'')" "''out.pdf''"
          "OrganizePage_init\<lparr>page_widgets := [0], cards := (\<lambda>r. PageCard_init 0 ''a.pdf'')\<rparr>"]
  by (simp add: save_job_def OrganizePage_init_def PageCard_init_def save_progress_def
        WorkerThread_run_def str_nat.simps digit_char_def)

section \<open>Parsing page ranges\<close>

lemmas parse_eval = parse_ranges_def range_parts_def parse_part_def clamp_check_def clamp_page_def
  py_int_def int_digits_def int_max_str_digits_def int_strip_def int_isspace_def py_strip_def
  py_isspace_def remove_spaces_def split_first_def is_digit_def digits_value_def digit_value_def
  Let_def

lemma clamp_check_Inr:
  assumes "clamp_check total_pages part x y = Inr (a, b)"
  shows "a = clamp_page total_pages x \<and> b = clamp_page total_pages y
         \<and> 1 \<le> a \<and> a \<le> b \<and> b \<le> max 1 total_pages"
proof -
  have ab: "a = clamp_page total_pages x" "b = clamp_page total_pages y" "a \<le> b"
    using assms by (auto simp: clamp_check_def Let_def split: if_splits)
  have "1 \<le> clamp_page total_pages x" "clamp_page total_pages y \<le> max 1 total_pages"
    by (simp_all add: clamp_page_def)
  then show ?thesis using ab by simp
qed

lemma clamp_check_isl:
  "isl (clamp_check total_pages part x y) \<longleftrightarrow> clamp_page total_pages x > clamp_page total_pages y"
  by (simp add: clamp_check_def Let_def)

lemma parse_part_Inr:
  assumes "parse_part total_pages part = Inr (a, b)"
  shows "spec_token_range total_pages part = Some (a, b) \<and> 1 \<le> a \<and> a \<le> b \<and> b \<le> max 1 total_pages"
proof -
  obtain x y where c: "clamp_check total_pages part x y = Inr (a, b)"
    and sp: "spec_token_range total_pages part
               = Some (clamp_page total_pages x, clamp_page total_pages y)"
    using assms
    by (auto simp: parse_part_def spec_token_range_def Let_def
           split: if_splits prod.splits option.splits)
  show ?thesis using clamp_check_Inr [OF c] sp by simp
qed

lemma parse_loop_Inr:
  assumes "parse_loop total_pages parts acc = Inr rs"
  shows "\<exists>new. rs = acc @ new \<and> map (spec_token_range total_pages) parts = map Some new
               \<and> (\<forall>(a, b) \<in> set new. 1 \<le> a \<and> a \<le> b \<and> b \<le> max 1 total_pages)"
  using assms
proof (induction parts arbitrary: acc)
  case Nil
  then show ?case by simp
next
  case (Cons part parts)
  from Cons.prems obtain a b where r: "parse_part total_pages part = Inr (a, b)"
    and rest: "parse_loop total_pages parts (acc @ [(a, b)]) = Inr rs"
    by (auto split: sum.splits)
  from Cons.IH [OF rest] obtain new where new: "rs = (acc @ [(a, b)]) @ new"
    "map (spec_token_range total_pages) parts = map Some new"
    "\<forall>(a, b) \<in> set new. 1 \<le> a \<and> a \<le> b \<and> b \<le> max 1 total_pages"
    by blast
  have "rs = acc @ ((a, b) # new)" using new(1) by simp
  moreover have "map (spec_token_range total_pages) (part # parts) = map Some ((a, b) # new)"
    using parse_part_Inr [OF r] new(2) by simp
  moreover have "\<forall>(a, b) \<in> set ((a, b) # new). 1 \<le> a \<and> a \<le> b \<and> b \<le> max 1 total_pages"
    using parse_part_Inr [OF r] new(3) by simp
  ultimately show ?case by blast
qed

lemma range_parts_empty: "range_parts [] = []"
  by (simp add: range_parts_def remove_spaces_def py_strip_def)

lemma parse_ranges_parts:
  "parse_ranges ranges_text total_pages
     = parse_loop total_pages (range_parts (py_strip ranges_text)) []"
  by (simp add: parse_ranges_def Let_def range_parts_empty)

lemma bare_dash:
  assumes "CHR ''-'' \<in> set tok"
  shows "(fst (split_first (CHR ''-'') tok) = [] \<and> snd (split_first (CHR ''-'') tok) = [])
           \<longleftrightarrow> tok = ''-''"
proof (cases tok)
  case Nil
  then show ?thesis using assms by simp
next
  case (Cons c r)
  show ?thesis
  proof (cases "c = CHR ''-''")
    case True
    then show ?thesis using Cons by (auto simp: split_first_def)
  next
    case False
    then show ?thesis using Cons by (auto simp: split_first_def)
  qed
qed

lemma parse_part_isl: "isl (parse_part total_pages tok) \<longleftrightarrow> token_rejected total_pages tok"
proof (cases "CHR ''-'' \<in> set tok")
  case False
  then have nb: "tok \<noteq> ''-''" by auto
  show ?thesis
    using False nb
    by (auto simp: parse_part_def token_rejected_def page_number_fields_def start_after_end_def
          spec_token_range_def clamp_check_isl split: option.splits)
next
  case True
  obtain l r where lr: "split_first (CHR ''-'') tok = (l, r)" by (cases "split_first (CHR ''-'') tok")
  have bd: "(l = [] \<and> r = []) \<longleftrightarrow> tok = ''-''" using bare_dash [OF True] lr by simp
  show ?thesis
  proof (cases "tok = ''-''")
    case t: True
    then have "l = [] \<and> r = []" using bd by simp
    then show ?thesis using True lr t by (simp add: parse_part_def token_rejected_def)
  next
    case f: False
    then have ne: "\<not> (l = [] \<and> r = [])" using bd by simp
    show ?thesis
      using True lr f ne
      by (auto simp: parse_part_def token_rejected_def page_number_fields_def start_after_end_def
            spec_token_range_def clamp_check_isl Let_def split: option.splits)
  qed
qed

lemma parse_loop_isl:
  "isl (parse_loop total_pages parts acc) \<longleftrightarrow> (\<exists>tok \<in> set parts. token_rejected total_pages tok)"
proof (induction parts arbitrary: acc)
  case Nil
  then show ?case by simp
next
  case (Cons part parts)
  show ?case
  proof (cases "parse_part total_pages part")
    case (Inl e)
    then have "token_rejected total_pages part" using parse_part_isl [of total_pages part] by simp
    then show ?thesis using Inl by simp
  next
    case (Inr r)
    then have "\<not> token_rejected total_pages part" using parse_part_isl [of total_pages part] by simp
    then show ?thesis using Inr Cons.IH [of "acc @ [r]"] by simp
  qed
qed


lemma digit_not_space: "is_digit c \<Longrightarrow> \<not> int_isspace c"
  by (auto simp: is_digit_def int_isspace_def)

lemma digit_not_sign: "is_digit c \<Longrightarrow> c \<noteq> CHR ''+'' \<and> c \<noteq> CHR ''-'' \<and> c \<noteq> CHR ''_''"
  by (auto simp: is_digit_def)

lemma int_strip_digits:
  assumes "f \<noteq> []" and "\<forall>c \<in> set f. is_digit c"
  shows "int_strip f = f"
proof -
  have "\<not> int_isspace (hd f)" using assms digit_not_space by (cases f) auto
  then have a: "dropWhile int_isspace f = f" by (simp add: dropWhile_eq_self_iff)
  have "\<not> int_isspace (last f)" using assms digit_not_space by simp
  then have "\<not> int_isspace (hd (rev f))" using assms(1) by (simp add: hd_rev)
  then have b: "dropWhile int_isspace (rev f) = rev f" by (simp add: dropWhile_eq_self_iff)
  show ?thesis unfolding int_strip_def a b by simp
qed

lemma digitpart_digits:
  "f \<noteq> [] \<Longrightarrow> \<forall>c \<in> set f. is_digit c \<Longrightarrow> digitpart f"
proof (induction f rule: digitpart.induct)
  case 1
  then show ?case by simp
next
  case (2 c)
  then show ?case by simp
next
  case (3 c d rest)
  then have "is_digit d" by simp
  then have "d \<noteq> CHR ''_''" using digit_not_sign by blast
  then show ?case using 3 by simp
qed

lemma digits_no_underscore:
  "\<forall>c \<in> set f. is_digit c \<Longrightarrow> filter (\<lambda>c. c \<noteq> CHR ''_'') f = f"
  using digit_not_sign by (induction f) auto

lemma py_int_digits:
  assumes "f \<noteq> []" and "\<forall>c \<in> set f. is_digit c"
  shows "py_int f = None \<longleftrightarrow> int_max_str_digits < length f"
proof -
  obtain c r where f: "f = c # r" using assms(1) by (cases f) auto
  have c: "c \<noteq> CHR ''+''" "c \<noteq> CHR ''-''" using assms(2) f digit_not_sign by auto
  have d: "digitpart f" by (rule digitpart_digits [OF assms])
  have u: "filter (\<lambda>c. c \<noteq> CHR ''_'') f = f" by (rule digits_no_underscore [OF assms(2)])
  have "py_int f = int_digits f"
    using int_strip_digits [OF assms] f c by (simp add: py_int_def)
  also have "\<dots> = (if length f \<le> int_max_str_digits then Some (digits_value f) else None)"
    using d u by (simp add: int_digits_def)
  finally show ?thesis by auto
qed

lemma range_parts_nonempty: "tok \<in> set (range_parts text) \<Longrightarrow> tok \<noteq> []"
  by (auto simp: range_parts_def)

lemma token_rejected_spec:
  assumes "tok \<noteq> []" and "token_rejected total_pages tok"
  shows "spec_invalid_token total_pages tok
         \<or> (\<exists>f \<in> set (page_number_fields tok). too_many_digits f)"
proof -
  have "non_numeric_field f \<or> too_many_digits f"
    if "f \<in> set (page_number_fields tok)" "py_int f = None" for f
  proof -
    have ne: "f \<noteq> []" using that(1) assms(1)
      by (auto simp: page_number_fields_def Let_def split: if_splits prod.splits)
    show ?thesis
    proof (cases "\<forall>c \<in> set f. is_digit c")
      case True
      then show ?thesis using py_int_digits [OF ne True] that(2) by (simp add: too_many_digits_def)
    next
      case False
      then show ?thesis by (auto simp: non_numeric_field_def)
    qed
  qed
  then show ?thesis using assms(2) by (auto simp: token_rejected_def spec_invalid_token_def)
qed

lemma parse_part_ValueError: "parse_part total_pages part = Inl e \<Longrightarrow> \<exists>m. e = ValueError m"
  by (auto simp: parse_part_def clamp_check_def Let_def split: if_splits prod.splits option.splits)

lemma parse_loop_ValueError:
  "parse_loop total_pages parts acc = Inl e \<Longrightarrow> \<exists>m. e = ValueError m"
  by (induction parts arbitrary: acc) (auto split: sum.splits dest: parse_part_ValueError)

text \<open>
  C3, as the code has it. When \<open>parse_ranges\<close> succeeds, its result lists, token by token
  of the comma-separated and stripped input, what each token stands for: \<open>N\<close> is
  \<open>(N, N)\<close>, a missing start is 1, a missing end is the page count, both ends clamped.
  Every pair satisfies \<open>1 \<le> start \<le> end \<le> max 1 total_pages\<close>, which is
  \<open>1 \<le> start \<le> end \<le> total_pages\<close> when there is at least one page.
\<close>

theorem parse_ranges_success:
  assumes "parse_ranges text total_pages = Inr rs"
  shows "map (spec_token_range total_pages) (range_parts (py_strip text)) = map Some rs
         \<and> (\<forall>(a, b) \<in> set rs. 1 \<le> a \<and> a \<le> b \<and> b \<le> max 1 total_pages)
         \<and> (1 \<le> total_pages \<longrightarrow> (\<forall>(a, b) \<in> set rs. 1 \<le> a \<and> a \<le> b \<and> b \<le> total_pages))
         \<and> parse_ranges ''1-3,5'' 10 = Inr [(1, 3), (5, 5)]
         \<and> parse_ranges ''1-100'' 10 = Inr [(1, 10)]
         \<and> parse_ranges [] 10 = Inr []"
proof -
  have "parse_loop total_pages (range_parts (py_strip text)) [] = Inr rs"
    using assms by (simp add: parse_ranges_parts)
  from parse_loop_Inr [OF this]
  have m: "map (spec_token_range total_pages) (range_parts (py_strip text)) = map Some rs"
    and b: "\<forall>(a, b) \<in> set rs. 1 \<le> a \<and> a \<le> b \<and> b \<le> max 1 total_pages"
    by auto
  have b1: "\<forall>(a, b) \<in> set rs. 1 \<le> a \<and> a \<le> b \<and> b \<le> total_pages" if "1 \<le> total_pages"
    using b that by (auto simp: max_def)
  have e1: "parse_ranges ''1-3,5'' 10 = Inr [(1, 3), (5, 5)]" by (simp add: parse_eval)
  have e2: "parse_ranges ''1-100'' 10 = Inr [(1, 10)]" by (simp add: parse_eval)
  have e3: "parse_ranges [] 10 = Inr []" by (simp add: parse_eval)
  show ?thesis using m b b1 e1 e2 e3 by blast
qed

theorem parse_ranges_success_witness:
  "parse_ranges '' 2 - 4 , -3, 7- ,12'' 10 = Inr [(2, 4), (1, 3), (7, 10), (10, 10)]
   \<and> map (spec_token_range 10) (range_parts (py_strip '' 2 - 4 , -3, 7- ,12''))
       = [Some (2, 4), Some (1, 3), Some (7, 10), Some (10, 10)]"
  using parse_ranges_success [of "'' 2 - 4 , -3, 7- ,12''" 10 "[(2, 4), (1, 3), (7, 10), (10, 10)]"]
  by (simp add: parse_eval)

text \<open>
  With a page count of 0 the clamp still gives 1: the text \<open>1\<close> parses to \<open>(1, 1)\<close>, and
  its end is above the page count.
\<close>

theorem parse_ranges_zero_pages_counterexample:
  "parse_ranges ''1'' 0 = Inr [(1, 1)] \<and> \<not> (1 \<le> (1::int) \<and> (1::int) \<le> 1 \<and> (1::int) \<le> 0)"
  by (simp add: parse_eval)

text \<open>
  C4, as the code has it. \<open>parse_ranges\<close> raises exactly when some token is a bare dash, or
  has a page-number field that \<open>int\<close> rejects, or has its clamped start after its clamped
  end; what it raises is a ValueError. A field made of digits only is rejected by \<open>int\<close>
  exactly when it has more than 4300 of them. So a token that makes \<open>parse_ranges\<close> raise
  is a bare dash, or has a field with a character that is not a digit, or has a field of
  more than 4300 characters, or has start after end; but not every field with a character
  that is not a digit makes it raise.
\<close>

theorem parse_ranges_raises_iff:
  "(isl (parse_ranges text total_pages)
      \<longleftrightarrow> (\<exists>tok \<in> set (range_parts (py_strip text)). token_rejected total_pages tok))
   \<and> (isl (parse_ranges text total_pages)
      \<longrightarrow> (\<exists>tok \<in> set (range_parts (py_strip text)).
             spec_invalid_token total_pages tok
             \<or> (\<exists>f \<in> set (page_number_fields tok). too_many_digits f)))
   \<and> (f \<noteq> [] \<and> (\<forall>c \<in> set f. is_digit c)
      \<longrightarrow> (py_int f = None \<longleftrightarrow> int_max_str_digits < length f))
   \<and> (\<forall>e. parse_ranges text total_pages = Inl e \<longrightarrow> (\<exists>m. e = ValueError m))
   \<and> isl (parse_ranges ''-'' 10) \<and> isl (parse_ranges ''5-2'' 10)"
proof -
  have iff: "isl (parse_ranges text total_pages)
      \<longleftrightarrow> (\<exists>tok \<in> set (range_parts (py_strip text)). token_rejected total_pages tok)"
    by (simp add: parse_ranges_parts parse_loop_isl)
  have sp: "\<exists>tok \<in> set (range_parts (py_strip text)).
             spec_invalid_token total_pages tok
             \<or> (\<exists>f \<in> set (page_number_fields tok). too_many_digits f)"
    if "isl (parse_ranges text total_pages)"
  proof -
    from that iff obtain tok where t: "tok \<in> set (range_parts (py_strip text))"
      "token_rejected total_pages tok" by blast
    then have "spec_invalid_token total_pages tok
               \<or> (\<exists>f \<in> set (page_number_fields tok). too_many_digits f)"
      using range_parts_nonempty token_rejected_spec by blast
    then show ?thesis using t(1) by blast
  qed
  have dg: "py_int f = None \<longleftrightarrow> int_max_str_digits < length f"
    if "f \<noteq> [] \<and> (\<forall>c \<in> set f. is_digit c)"
    using py_int_digits [of f] that by blast
  have ve: "\<exists>m. e = ValueError m" if "parse_ranges text total_pages = Inl e" for e
    using that parse_loop_ValueError [of total_pages "range_parts (py_strip text)" "[]" e]
    by (simp add: parse_ranges_parts)
  have e1: "isl (parse_ranges ''-'' 10)" by (simp add: parse_eval)
  have e2: "isl (parse_ranges ''5-2'' 10)" by (simp add: parse_eval)
  show ?thesis using iff sp dg ve e1 e2 by blast
qed

theorem parse_ranges_raises_iff_witness:
  "parse_ranges ''1-3,x7'' 10 = Inl (ValueError ''Invalid characters in page number: x7'')
   \<and> range_parts (py_strip ''1-3,x7'') = [''1-3'', ''x7'']
   \<and> token_rejected 10 ''x7'' \<and> spec_invalid_token 10 ''x7''
   \<and> py_int ''0042'' = Some 42"
  using parse_ranges_raises_iff [of "''1-3,x7''" 10 "''0042''"]
  by (simp add: parse_eval token_rejected_def spec_invalid_token_def page_number_fields_def
        non_numeric_field_def start_after_end_def spec_token_range_def)

text \<open>
  The token \<open>+5\<close> holds a character that is not a digit where a page number is expected,
  and \<open>parse_ranges\<close> accepts it: \<open>int("+5")\<close> is 5.
\<close>

theorem parse_ranges_signed_number_counterexample:
  "parse_ranges ''+5'' 10 = Inr [(5, 5)]
   \<and> range_parts (py_strip ''+5'') = [''+5'']
   \<and> spec_invalid_token 10 ''+5''"
  by (simp add: parse_eval spec_invalid_token_def page_number_fields_def non_numeric_field_def)

section \<open>Where the range text is validated\<close>

lemma parse_ranges_bounds:
  assumes "parse_ranges text total_pages = Inr rs"
  shows "\<forall>(a, b) \<in> set rs. 1 \<le> a \<and> a \<le> b \<and> b \<le> max 1 total_pages"
proof -
  have "parse_loop total_pages (range_parts (py_strip text)) [] = Inr rs"
    using assms by (simp add: parse_ranges_parts)
  from parse_loop_Inr [OF this] show ?thesis by auto
qed

lemma read_pages_ok:
  "\<forall>i \<in> set idxs. 0 \<le> i \<and> i < int n \<Longrightarrow> \<exists>pgs. read_pages n idxs = Inr pgs"
  by (induction idxs) (auto simp: pages_getitem_def)

lemma range_indices_bounds:
  assumes "\<forall>(a, b) \<in> set rs. 1 \<le> a \<and> a \<le> b \<and> b \<le> int n"
  shows "\<forall>i \<in> set (range_indices rs). 0 \<le> i \<and> i < int n"
  using assms by (fastforce simp: range_indices_def)

lemma extract_loop_fails:
  assumes "\<exists>t \<in> set ranges. isl (parse_ranges t (int total_pages))"
  shows "isl (extract_loop out_dir base_name total_pages ranges dests)"
  using assms
proof (induction ranges arbitrary: dests)
  case Nil
  then show ?case by simp
next
  case (Cons t ranges)
  show ?case
  proof (cases "parse_ranges t (int total_pages)")
    case (Inl e)
    then show ?thesis by simp
  next
    case (Inr rs)
    then have rest: "\<exists>t \<in> set ranges. isl (parse_ranges t (int total_pages))"
      using Cons.prems by auto
    show ?thesis
    proof (cases "read_pages total_pages (range_indices rs)")
      case (Inl e)
      then show ?thesis using Inr by simp
    next
      case r: (Inr pgs)
      show ?thesis using Inr r Cons.IH [OF rest] by simp
    qed
  qed
qed

lemma extract_loop_ValueError:
  assumes "1 \<le> total_pages" and "extract_loop out_dir base_name total_pages ranges dests = Inl e"
  shows "\<exists>m. e = ValueError m"
  using assms(2)
proof (induction ranges arbitrary: dests)
  case Nil
  then show ?case by simp
next
  case (Cons t ranges)
  show ?case
  proof (cases "parse_ranges t (int total_pages)")
    case (Inl e')
    then have "e' = e" using Cons.prems by simp
    moreover have "\<exists>m. e' = ValueError m"
      using Inl parse_loop_ValueError [of "int total_pages" "range_parts (py_strip t)" "[]" e']
      by (simp add: parse_ranges_parts)
    ultimately show ?thesis by simp
  next
    case (Inr rs)
    have "\<forall>(a, b) \<in> set rs. 1 \<le> a \<and> a \<le> b \<and> b \<le> int total_pages"
      using parse_ranges_bounds [OF Inr] assms(1) by (auto simp: max_def)
    then obtain pgs where pgs: "read_pages total_pages (range_indices rs) = Inr pgs"
      using read_pages_ok range_indices_bounds by blast
    show ?thesis using Cons.prems Inr pgs Cons.IH by simp
  qed
qed

lemma extract_invalid_range:
  assumes "\<exists>t \<in> set (individual_range_texts (py_strip ent)). isl (parse_ranges t (int total_pages))"
  shows "threads_started (SplitPage_extract pct write_file self_path ent out_dir base_name
                            (Inr total_pages) a) = threads_started a"
    and "progress_queue (SplitPage_extract pct write_file self_path ent out_dir base_name
                            (Inr total_pages) a) = progress_queue a"
    and "self_path \<noteq> [] \<Longrightarrow> out_dir \<noteq> [] \<Longrightarrow> 1 \<le> total_pages \<Longrightarrow>
         \<exists>m. SplitPage_extract pct write_file self_path ent out_dir base_name (Inr total_pages) a
               = show_dialog (showerror ''Invalid Range'' m) a"
proof -
  have "individual_range_texts [] = []"
    by (simp add: individual_range_texts_def py_strip_def)
  then have ne: "py_strip ent \<noteq> []"
    using assms by (cases "py_strip ent") auto
  obtain e where e: "extract_loop out_dir base_name total_pages
                       (individual_range_texts (py_strip ent)) [] = Inl e"
    using extract_loop_fails [OF assms, of out_dir base_name "[]"] by (auto simp: isl_def)
  show "threads_started (SplitPage_extract pct write_file self_path ent out_dir base_name
                            (Inr total_pages) a) = threads_started a"
    using e by (cases e) (simp_all add: SplitPage_extract_def Let_def show_dialog_def)
  show "progress_queue (SplitPage_extract pct write_file self_path ent out_dir base_name
                            (Inr total_pages) a) = progress_queue a"
    using e by (cases e) (simp_all add: SplitPage_extract_def Let_def show_dialog_def)
  show "\<exists>m. SplitPage_extract pct write_file self_path ent out_dir base_name (Inr total_pages) a
               = show_dialog (showerror ''Invalid Range'' m) a"
    if h: "self_path \<noteq> []" "out_dir \<noteq> []" "1 \<le> total_pages"
  proof -
    obtain m where "e = ValueError m" using extract_loop_ValueError [OF h(3) e] by blast
    then have "SplitPage_extract pct write_file self_path ent out_dir base_name (Inr total_pages) a
               = show_dialog (showerror ''Invalid Range'' m) a"
      using e h ne by (simp add: SplitPage_extract_def Let_def)
    then show ?thesis by blast
  qed
qed

lemma apply_to_single_invalid_range:
  assumes "src \<noteq> []" "is_file" "out \<noteq> []" "py_strip range_entry \<noteq> []"
    and "parse_ranges range_entry (int tot) = Inl e"
  shows "apply_to_single pct merge write_out src is_file out (Inr tot) range_entry a
           = a\<lparr>status := ''Working...'', progress_var := 0,
               threads_started := Suc (threads_started a),
               progress_queue := progress_queue a @ [Error (str_of e)]\<rparr>"
  using assms
  by (simp add: apply_to_single_def watermark_job_def parsed_ranges_list_def run_worker_def
        WorkerThread_run_def Let_def)

lemma apply_to_folder_invalid_range:
  assumes "src \<noteq> []" "is_dir" "out_dir \<noteq> []" "py_strip range_entry \<noteq> []"
    and "PdfReader p = Inr tot" and "parse_ranges range_entry (int tot) = Inl e"
  shows "apply_to_folder pct PdfReader merge write_file src is_dir out_dir (p # rest) range_entry a
           = a\<lparr>status := ''Working...'', progress_var := 0,
               threads_started := Suc (threads_started a),
               progress_queue := progress_queue a @ [Error (str_of e)]\<rparr>"
  using assms
  by (simp add: apply_to_folder_def folder_job_def folder_file_def parsed_ranges_list_def
        run_worker_def WorkerThread_run_def Let_def)


text \<open>
  C9, as the code has it. \<open>SplitPage.extract\<close> parses the range texts on the main thread:
  when one of them is invalid for the document's page count, no worker thread is started
  and nothing is put on the queue, and, a file and an output folder having been chosen
  and the document having at least one page, the error box "Invalid Range" is shown.
  The two watermark actions parse the range text inside the background job: with an
  invalid range text the job is started all the same, and the failure arrives as an
  \<open>Error\<close> event on the progress queue (for the batch action, at the first readable PDF
  of the folder, here the first of the list); no message box is shown by the action, and
  no \<open>Done\<close> follows.
\<close>

theorem range_validation_placement:
  "((\<exists>t \<in> set (individual_range_texts (py_strip ent)). isl (parse_ranges t (int total_pages)))
      \<longrightarrow> threads_started (SplitPage_extract pct write_file self_path ent out_dir base_name
                              (Inr total_pages) a) = threads_started a
        \<and> progress_queue (SplitPage_extract pct write_file self_path ent out_dir base_name
                              (Inr total_pages) a) = progress_queue a
        \<and> (self_path \<noteq> [] \<and> out_dir \<noteq> [] \<and> 1 \<le> total_pages \<longrightarrow>
             (\<exists>m. SplitPage_extract pct write_file self_path ent out_dir base_name
                     (Inr total_pages) a
                   = show_dialog (showerror ''Invalid Range'' m) a)))
   \<and> (src \<noteq> [] \<and> is_file \<and> out \<noteq> [] \<and> py_strip range_entry \<noteq> []
        \<and> parse_ranges range_entry (int tot) = Inl e \<longrightarrow>
        apply_to_single pct merge write_out src is_file out (Inr tot) range_entry a
          = a\<lparr>status := ''Working...'', progress_var := 0,
              threads_started := Suc (threads_started a),
              progress_queue := progress_queue a @ [Error (str_of e)]\<rparr>)
   \<and> (src_dir \<noteq> [] \<and> is_dir \<and> out_dir \<noteq> [] \<and> py_strip range_entry \<noteq> []
        \<and> PdfReader p = Inr tot \<and> parse_ranges range_entry (int tot) = Inl e \<longrightarrow>
        apply_to_folder pct PdfReader merges write_file src_dir is_dir out_dir (p # rest)
          range_entry a
          = a\<lparr>status := ''Working...'', progress_var := 0,
              threads_started := Suc (threads_started a),
              progress_queue := progress_queue a @ [Error (str_of e)]\<rparr>)"
proof -
  have A: "(\<exists>t \<in> set (individual_range_texts (py_strip ent)). isl (parse_ranges t (int total_pages)))
      \<longrightarrow> threads_started (SplitPage_extract pct write_file self_path ent out_dir base_name
                              (Inr total_pages) a) = threads_started a
        \<and> progress_queue (SplitPage_extract pct write_file self_path ent out_dir base_name
                              (Inr total_pages) a) = progress_queue a
        \<and> (self_path \<noteq> [] \<and> out_dir \<noteq> [] \<and> 1 \<le> total_pages \<longrightarrow>
             (\<exists>m. SplitPage_extract pct write_file self_path ent out_dir base_name
                     (Inr total_pages) a
                   = show_dialog (showerror ''Invalid Range'' m) a))"
  proof (intro impI conjI)
    assume h: "\<exists>t \<in> set (individual_range_texts (py_strip ent)).
                 isl (parse_ranges t (int total_pages))"
    show "threads_started (SplitPage_extract pct write_file self_path ent out_dir base_name
                              (Inr total_pages) a) = threads_started a"
      by (rule extract_invalid_range(1) [OF h])
    show "progress_queue (SplitPage_extract pct write_file self_path ent out_dir base_name
                              (Inr total_pages) a) = progress_queue a"
      by (rule extract_invalid_range(2) [OF h])
    assume "self_path \<noteq> [] \<and> out_dir \<noteq> [] \<and> 1 \<le> total_pages"
    then show "\<exists>m. SplitPage_extract pct write_file self_path ent out_dir base_name
                     (Inr total_pages) a
                   = show_dialog (showerror ''Invalid Range'' m) a"
      using extract_invalid_range(3) [OF h] by blast
  qed
  have B: "src \<noteq> [] \<and> is_file \<and> out \<noteq> [] \<and> py_strip range_entry \<noteq> []
        \<and> parse_ranges range_entry (int tot) = Inl e \<longrightarrow>
        apply_to_single pct merge write_out src is_file out (Inr tot) range_entry a
          = a\<lparr>status := ''Working...'', progress_var := 0,
              threads_started := Suc (threads_started a),
              progress_queue := progress_queue a @ [Error (str_of e)]\<rparr>"
    using apply_to_single_invalid_range by blast
  have C: "src_dir \<noteq> [] \<and> is_dir \<and> out_dir \<noteq> [] \<and> py_strip range_entry \<noteq> []
        \<and> PdfReader p = Inr tot \<and> parse_ranges range_entry (int tot) = Inl e \<longrightarrow>
        apply_to_folder pct PdfReader merges write_file src_dir is_dir out_dir (p # rest)
          range_entry a
          = a\<lparr>status := ''Working...'', progress_var := 0,
              threads_started := Suc (threads_started a),
              progress_queue := progress_queue a @ [Error (str_of e)]\<rparr>"
    using apply_to_folder_invalid_range by blast
  show ?thesis using A B C by blast
qed

lemma upto_0_2: "[0..2] = [0, 1, 2]"
  by (simp add: upto_rec1)

theorem range_validation_placement_witness:
  "SplitPage_extract (\<lambda>i n. 0) (\<lambda>p. None) ''/in/doc.pdf'' ''1-3, x7'' ''/out'' ''doc'' (Inr 10)
       MainApp_init
     = show_dialog (showerror ''Invalid Range'' ''Invalid characters in page number: x7'')
         MainApp_init
   \<and> apply_to_single (\<lambda>i n. 0) (\<lambda>i. Inr True) (\<lambda>p. None) ''/in/doc.pdf'' True ''/out/w.pdf''
        (Inr 10) ''x7'' MainApp_init
     = MainApp_init\<lparr>status := ''Working...'', progress_var := 0, threads_started := 1,
         progress_queue := [Error ''Invalid characters in page number: x7'']\<rparr>
   \<and> apply_to_folder (\<lambda>i n. 0) (\<lambda>p. Inr 10) (\<lambda>p i. Inr True) (\<lambda>p. None) ''/in'' True ''/out''
        [''/in/a.pdf'', ''/in/b.pdf''] ''x7'' MainApp_init
     = MainApp_init\<lparr>status := ''Working...'', progress_var := 0, threads_started := 1,
         progress_queue := [Error ''Invalid characters in page number: x7'']\<rparr>"
  using range_validation_placement
          [where ent = "''1-3, x7''" and total_pages = 10 and pct = "\<lambda>i n. 0"
             and write_file = "\<lambda>p. None" and self_path = "''/in/doc.pdf''" and out_dir = "''/out''"
             and base_name = "''doc''" and a = MainApp_init and src = "''/in/doc.pdf''"
             and is_file = True and out = "''/out/w.pdf''" and range_entry = "''x7''" and tot = 10
             and e = "ValueError ''Invalid characters in page number: x7''"
             and merge = "\<lambda>i. Inr True" and write_out = "\<lambda>p. None" and src_dir = "''/in''"
             and is_dir = True and PdfReader = "\<lambda>p. Inr 10" and p = "''/in/a.pdf''"
             and merges = "\<lambda>p i. Inr True" and rest = "[''/in/b.pdf'']"]
  by (simp add: parse_eval individual_range_texts_def SplitPage_extract_def show_dialog_def
        apply_to_single_def apply_to_folder_def watermark_job_def folder_job_def folder_file_def
        parsed_ranges_list_def run_worker_def WorkerThread_run_def MainApp_init_def
        range_indices_def pages_getitem_def safe_range_str_def upto_0_2)

text \<open>
  The watermark action on a single PDF of 10 pages with the range text \<open>5-2\<close>: a worker
  thread is started, no message box is shown, and the error is an event on the queue.
\<close>

theorem watermark_range_checked_in_job_counterexample:
  "isl (parse_ranges ''5-2'' 10)
   \<and> threads_started
        (apply_to_single (\<lambda>i n. 0) (\<lambda>i. Inr True) (\<lambda>p. None) ''/in/doc.pdf'' True ''/out/w.pdf''
           (Inr 10) ''5-2'' MainApp_init) = 1
   \<and> dialogs
        (apply_to_single (\<lambda>i n. 0) (\<lambda>i. Inr True) (\<lambda>p. None) ''/in/doc.pdf'' True ''/out/w.pdf''
           (Inr 10) ''5-2'' MainApp_init) = []
   \<and> progress_queue
        (apply_to_single (\<lambda>i n. 0) (\<lambda>i. Inr True) (\<lambda>p. None) ''/in/doc.pdf'' True ''/out/w.pdf''
           (Inr 10) ''5-2'' MainApp_init)
       = [Error ''Start page 5 cannot be after end page 2 in range: 5-2'']"
  by (simp add: parse_eval apply_to_single_def watermark_job_def parsed_ranges_list_def
        run_worker_def WorkerThread_run_def MainApp_init_def str_int_def str_nat.simps
        digit_char_def)

end
